theory Spec2Isabelle
  imports Main "HOL-Library.AList"
begin

section \<open>PubkeyAssistant: the SSH key manager of \<^verbatim>\<open>manage_keys.py\<close>\<close>

text \<open>
  A shallow embedding of the class \<^verbatim>\<open>SSHKeyManager\<close>.

  \<^item> A Python \<^verbatim>\<open>str\<close> is a \<open>string\<close>; a \<open>char\<close> stands for a code point below 256.
  \<^item> A Python \<^verbatim>\<open>dict\<close> is an association list in insertion order
    (\<open>map_of\<close> reads it, \<open>AList.update\<close> is \<^verbatim>\<open>d[k] = v\<close>, \<open>AList.delete\<close> is
    \<^verbatim>\<open>d.pop(k, None)\<close>).
  \<^item> The file system is a map from paths to nodes. A path is named as it is seen from
    the working directory: the relative paths of the inventory name themselves, and
    the two absolute paths of \<^verbatim>\<open>deploy_keys\<close> are named by \<open>seen_from\<close>, so that
    \<^verbatim>\<open>~/.ssh/authorized_keys\<close> and the key list \<^verbatim>\<open>authorized_keys\<close> are one file when the
    program runs in \<^verbatim>\<open>~/.ssh\<close>. Names are compared as strings: links and the components
    \<^verbatim>\<open>.\<close> and \<^verbatim>\<open>..\<close> are not resolved.
  \<^item> The content of a file is a string: its text, or the bytes of a file that is not
    text. Reading is decoding for the \<^verbatim>\<open>json\<close> module only, which can fail with
    \<^verbatim>\<open>UnicodeDecodeError\<close>; a key list that is not text is not represented.
  \<^item> The console is a list of pending input lines and a list of printed events, one
    event per \<^verbatim>\<open>print\<close> call; the prompts of \<^verbatim>\<open>input\<close> are not recorded.
  \<^item> A method is a function from the world to a pair of the exception that left it
    (\<open>None\<close> when it returned) and the world at that moment.
  \<^item> The clock readings, the result of \<^verbatim>\<open>get_system_keys\<close>, the \<^verbatim>\<open>json\<close> module, and the
    working directory and the operating system's refusals in \<^verbatim>\<open>deploy_keys\<close> are
    parameters.
\<close>

subsection \<open>Strings\<close>

definition LF :: char where
  "LF = CHR 0x0A"

definition CR :: char where
  "CR = CHR 0x0D"

text \<open>\<^verbatim>\<open>str.isspace\<close> on one code point below 256.\<close>

definition py_isspace :: "char \<Rightarrow> bool" where
  "py_isspace c = (c \<in> set [CHR 0x09, CHR 0x0A, CHR 0x0B, CHR 0x0C, CHR 0x0D,
       CHR 0x1C, CHR 0x1D, CHR 0x1E, CHR 0x1F, CHR 0x20, CHR 0x85, CHR 0xA0])"

text \<open>\<^verbatim>\<open>s.strip()\<close>\<close>

definition py_strip :: "string \<Rightarrow> string" where
  "py_strip s = rev (dropWhile py_isspace (rev (dropWhile py_isspace s)))"

text \<open>\<^verbatim>\<open>s.split()\<close>: the maximal runs of characters that are not whitespace.\<close>

fun split_from :: "string \<Rightarrow> string \<Rightarrow> string list" where
  "split_from cur [] = (if cur = [] then [] else [cur])"
| "split_from cur (c # cs) =
     (if py_isspace c then (if cur = [] then split_from [] cs else cur # split_from [] cs)
      else split_from (cur @ [c]) cs)"

definition py_split :: "string \<Rightarrow> string list" where
  "py_split s = split_from [] s"

text \<open>\<^verbatim>\<open>s.split(sep)\<close> for a separator of one character: empty pieces are kept.\<close>

fun split_on_from :: "char \<Rightarrow> string \<Rightarrow> string \<Rightarrow> string list" where
  "split_on_from sep cur [] = [cur]"
| "split_on_from sep cur (c # cs) =
     (if c = sep then cur # split_on_from sep [] cs else split_on_from sep (cur @ [c]) cs)"

definition split_on :: "char \<Rightarrow> string \<Rightarrow> string list" where
  "split_on sep s = split_on_from sep [] s"

text \<open>\<^verbatim>\<open>sep.join(xs)\<close>\<close>

fun join :: "string \<Rightarrow> string list \<Rightarrow> string" where
  "join sep [] = []"
| "join sep [x] = x"
| "join sep (x # y # ys) = x @ sep @ join sep (y # ys)"

text \<open>\<^verbatim>\<open>s.lower()\<close> on code points below 256: A-Z and the capital letters of Latin-1.\<close>

definition lower_char :: "char \<Rightarrow> char" where
  "lower_char c =
     (let n = (of_char c :: nat)
      in if (65 \<le> n \<and> n \<le> 90) \<or> (192 \<le> n \<and> n \<le> 222 \<and> n \<noteq> 215)
         then char_of (n + 32) else c)"

definition py_lower :: "string \<Rightarrow> string" where
  "py_lower s = map lower_char s"

text \<open>
  \<^verbatim>\<open>int(s)\<close>: surrounding whitespace, an optional sign, then decimal digits in which
  single underscores may stand between two digits. \<open>None\<close> is \<^verbatim>\<open>ValueError\<close>. The limit
  that recent interpreters put on the number of digits is not represented.
\<close>

definition is_digit :: "char \<Rightarrow> bool" where
  "is_digit c = (c \<in> set ''0123456789'')"

definition digit_val :: "char \<Rightarrow> nat" where
  "digit_val c = of_char c - 48"

fun int_digits :: "nat \<Rightarrow> string \<Rightarrow> nat option" where
  "int_digits acc [] = Some acc"
| "int_digits acc [c] = (if is_digit c then Some (10 * acc + digit_val c) else None)"
| "int_digits acc (c # d # cs) =
     (if is_digit c then int_digits (10 * acc + digit_val c) (d # cs)
      else if c = CHR ''_'' \<and> is_digit d then int_digits (10 * acc + digit_val d) cs
      else None)"

definition nat_literal :: "string \<Rightarrow> nat option" where
  "nat_literal s =
     (case s of [] \<Rightarrow> None
      | c # cs \<Rightarrow> if is_digit c then int_digits (digit_val c) cs else None)"

definition py_int :: "string \<Rightarrow> int option" where
  "py_int s =
     (case py_strip s of [] \<Rightarrow> None
      | c # cs \<Rightarrow>
          if c = CHR ''-'' then map_option (\<lambda>n. - int n) (nat_literal cs)
          else if c = CHR ''+'' then map_option int (nat_literal cs)
          else map_option int (nat_literal (c # cs)))"

text \<open>
  \<^verbatim>\<open>[int(i.strip()) - 1 for i in selection.split(',')]\<close>; \<open>None\<close> when one piece raises
  \<^verbatim>\<open>ValueError\<close>.
\<close>

fun sequence :: "'a option list \<Rightarrow> 'a list option" where
  "sequence [] = Some []"
| "sequence (None # xs) = None"
| "sequence (Some x # xs) = map_option ((#) x) (sequence xs)"

definition parse_indices :: "string \<Rightarrow> int list option" where
  "parse_indices selection =
     sequence (map (\<lambda>i. map_option (\<lambda>n. n - 1) (py_int (py_strip i))) (split_on CHR '','' selection))"

subsection \<open>Key lines\<close>

text \<open>\<^verbatim>\<open>get_key_name\<close>: \<^verbatim>\<open>parts[-1] if len(parts) > 2 else "Unknown"\<close>.\<close>

definition get_key_name :: "string \<Rightarrow> string" where
  "get_key_name key =
     (let parts = py_split (py_strip key)
      in if length parts > 2 then last parts else ''Unknown'')"

text \<open>\<^verbatim>\<open>get_key_parts\<close>: \<open>None\<close> is the pair \<^verbatim>\<open>(None, None)\<close>.\<close>

definition get_key_parts :: "string \<Rightarrow> (string \<times> string) option" where
  "get_key_parts key =
     (let parts = py_split (py_strip key)
      in if length parts \<ge> 2 then Some (parts ! 0, parts ! 1) else None)"

fun find_first :: "('a \<Rightarrow> bool) \<Rightarrow> 'a list \<Rightarrow> nat option" where
  "find_first P [] = None"
| "find_first P (x # xs) = (if P x then Some 0 else map_option Suc (find_first P xs))"

text \<open>
  \<^verbatim>\<open>find_existing_key\<close>. A field of \<^verbatim>\<open>split()\<close> is never empty, so the test
  \<^verbatim>\<open>not new_type or not new_data\<close> fails exactly on \<^verbatim>\<open>(None, None)\<close>, and an existing line
  with fewer than two fields matches nothing.
\<close>

definition find_existing_key :: "string \<Rightarrow> string list \<Rightarrow> nat option" where
  "find_existing_key new_key ks =
     (case get_key_parts new_key of
        None \<Rightarrow> None
      | Some p \<Rightarrow> find_first (\<lambda>existing_key. get_key_parts existing_key = Some p) ks)"

subsection \<open>Text files\<close>

text \<open>
  Reading in text mode turns \<^verbatim>\<open>\r\n\<close> and \<^verbatim>\<open>\r\<close> into \<^verbatim>\<open>\n\<close>; writing on POSIX changes
  nothing.
\<close>

fun universal_newlines :: "string \<Rightarrow> string" where
  "universal_newlines [] = []"
| "universal_newlines [c] = [if c = CR then LF else c]"
| "universal_newlines (c # d # cs) =
     (if c = CR \<and> d = LF then LF # universal_newlines cs
      else if c = CR then LF # universal_newlines (d # cs)
      else c # universal_newlines (d # cs))"

text \<open>\<^verbatim>\<open>for line in f\<close>: every line keeps its \<^verbatim>\<open>\n\<close>; the last one may lack it.\<close>

fun lines_from :: "string \<Rightarrow> string \<Rightarrow> string list" where
  "lines_from cur [] = (if cur = [] then [] else [cur])"
| "lines_from cur (c # cs) =
     (if c = LF then (cur @ [c]) # lines_from [] cs else lines_from (cur @ [c]) cs)"

definition file_lines :: "string \<Rightarrow> string list" where
  "file_lines content = lines_from [] (universal_newlines content)"

text \<open>\<^verbatim>\<open>[line.strip() for line in f if line.strip()]\<close>\<close>

definition stripped_lines :: "string \<Rightarrow> string list" where
  "stripped_lines content = filter (\<lambda>l. l \<noteq> []) (map py_strip (file_lines content))"

subsection \<open>Paths\<close>

text \<open>\<^verbatim>\<open>os.path.join\<close>, \<^verbatim>\<open>os.path.dirname\<close> and \<^verbatim>\<open>os.path.basename\<close> on POSIX.\<close>

definition path_join :: "string \<Rightarrow> string \<Rightarrow> string" where
  "path_join a b =
     (if b \<noteq> [] \<and> hd b = CHR ''/'' then b
      else if a = [] \<or> last a = CHR ''/'' then a @ b
      else a @ ''/'' @ b)"

definition basename :: "string \<Rightarrow> string" where
  "basename p = rev (takeWhile (\<lambda>c. c \<noteq> CHR ''/'') (rev p))"

definition dirname :: "string \<Rightarrow> string" where
  "dirname p =
     (let head = rev (dropWhile (\<lambda>c. c \<noteq> CHR ''/'') (rev p));
          trimmed = rev (dropWhile (\<lambda>c. c = CHR ''/'') (rev head))
      in if trimmed = [] then head else trimmed)"

definition keys_file :: string where
  "keys_file = ''authorized_keys''"

definition aliases_file :: string where
  "aliases_file = ''key_aliases.json''"

definition backup_dir :: string where
  "backup_dir = ''.key_backups''"

definition ssh_dir :: "string \<Rightarrow> string" where
  "ssh_dir home = path_join home ''.ssh''"

definition auth_keys_file :: "string \<Rightarrow> string" where
  "auth_keys_file home = path_join (ssh_dir home) ''authorized_keys''"

text \<open>
  The name of a path as seen from the working directory \<open>cwd\<close>: a path below \<open>cwd\<close> by
  what follows \<open>cwd\<close> and the separator, any other path by itself. It undoes
  \<open>path_join cwd\<close>, which is how the operating system reads a relative path. With an
  empty \<open>cwd\<close> every path names itself.
\<close>

definition seen_from :: "string \<Rightarrow> string \<Rightarrow> string" where
  "seen_from cwd p =
     (let below = (if cwd \<noteq> [] \<and> last cwd = CHR ''/'' then cwd else cwd @ ''/'')
      in if cwd \<noteq> [] \<and> length below < length p \<and> take (length below) p = below
         then drop (length below) p
         else p)"

subsection \<open>The world\<close>

datatype node = File string | Dir

text \<open>
  A value of \<^verbatim>\<open>self.aliases\<close>: the dictionary that \<^verbatim>\<open>capture_keys\<close> and \<^verbatim>\<open>set_expiry\<close>
  store, or the bare string that \<^verbatim>\<open>set_alias\<close> stores.
\<close>

datatype metadata = Dict "(string \<times> string) list" | Str string

datatype error =
    EOFError | AttributeError | TypeError | FileNotFoundError | IsADirectoryError
  | NotADirectoryError | JSONDecodeError | UnicodeDecodeError

text \<open>One constructor per \<^verbatim>\<open>print\<close> call; \<open>Git_sync\<close> stands for the call of \<^verbatim>\<open>sync_with_git\<close>.\<close>

datatype event =
    Warning_could_not_load_aliases
  | Backup_created string
  | Invalid_key_index
  | Expiry_set string string
  | No_system_keys
  | Found_keys_header
  | Numbered nat string
  | Invalid_selection
  | Key_already_exists string string
  | Skipping_key
  | Git_sync string
  | No_keys_to_deploy
  | Available_keys_header
  | Key_entry nat string string
  | Error_creating_ssh_dir
  | Error_reading_authorized_keys
  | All_already_deployed
  | Warning_permissions
  | Deployed_header
  | Deployed string
  | Failed_header
  | Failed string
  | Deployment_location string
  | Permissions_shown
  | Error_verifying
  | Error_writing
  | No_keys_available
  | Alias_entry nat string "metadata option"
  | No_keys_to_delete
  | About_to_delete_all
  | About_to_delete_these
  | Item string string
  | Operation_cancelled
  | Deleted_count nat
  | Deleted_item string

record world =
  keys :: "string list"
  aliases :: "(string \<times> metadata) list"
  files :: "string \<Rightarrow> node option"
  stdin :: "string list"
  stdout :: "event list"

text \<open>
  The \<^verbatim>\<open>json\<close> module: \<^verbatim>\<open>json.load\<close> on an open file, given the content of the file, and
  \<^verbatim>\<open>json.dump\<close>. \<^verbatim>\<open>json.load\<close> reads, decodes and parses: \<open>Inl UnicodeDecodeError\<close> on
  a content that is not text in the expected encoding, \<open>Inl JSONDecodeError\<close> on text
  that is not JSON, \<open>Inr\<close> with the mapping on a JSON object of dictionaries and strings.
  JSON of any other shape (a list, a string, a number, an object with other values),
  which \<^verbatim>\<open>json.load\<close> returns as it is, is not represented: \<^verbatim>\<open>self.aliases\<close> is a mapping in
  every state of the model.
\<close>

record json_module =
  json_load :: "string \<Rightarrow> error + (string \<times> metadata) list"
  json_dump :: "(string \<times> metadata) list \<Rightarrow> string"

text \<open>
  The operating system during \<^verbatim>\<open>deploy_keys\<close>: the working directory of the process
  (\<^verbatim>\<open>os.getcwd()\<close>), and what is refused (\<^verbatim>\<open>OSError\<close>): making the directory, reading the
  target, opening it for appending, changing its mode, reading it back.
\<close>

record operating_system =
  working_directory :: string
  makedirs_fails :: bool
  read_fails :: bool
  append_fails :: bool
  chmod_fails :: bool
  verify_fails :: bool

definition is_file :: "node option \<Rightarrow> bool" where
  "is_file n = (case n of Some (File c) \<Rightarrow> True | _ \<Rightarrow> False)"

text \<open>The text of a file; a file that does not exist yet has none.\<close>

definition file_text :: "node option \<Rightarrow> string" where
  "file_text n = (case n of Some (File c) \<Rightarrow> c | _ \<Rightarrow> [])"

definition print :: "event \<Rightarrow> world \<Rightarrow> world" where
  "print e w = w\<lparr>stdout := stdout w @ [e]\<rparr>"

definition prints :: "event list \<Rightarrow> world \<Rightarrow> world" where
  "prints es w = w\<lparr>stdout := stdout w @ es\<rparr>"

text \<open>\<^verbatim>\<open>del xs[i]\<close> for an index in range.\<close>

definition del_at :: "nat \<Rightarrow> 'a list \<Rightarrow> 'a list" where
  "del_at i xs = take i xs @ drop (Suc i) xs"

text \<open>\<^verbatim>\<open>self.aliases.get(name, {}).get('alias', '')\<close>: a bare string has no \<^verbatim>\<open>get\<close>.\<close>

definition alias_of :: "(string \<times> metadata) list \<Rightarrow> string \<Rightarrow> error + string" where
  "alias_of al name =
     (case map_of al name of
        None \<Rightarrow> Inr []
      | Some (Dict d) \<Rightarrow> Inr (case map_of d ''alias'' of None \<Rightarrow> [] | Some a \<Rightarrow> a)
      | Some (Str s) \<Rightarrow> Inl AttributeError)"

text \<open>
  The numbered listing of \<^verbatim>\<open>deploy_keys\<close> and \<^verbatim>\<open>delete_keys\<close>: the lines printed, and the
  exception that stopped the loop.
\<close>

fun show_keys :: "(string \<times> metadata) list \<Rightarrow> nat \<Rightarrow> string list \<Rightarrow> event list \<times> error option" where
  "show_keys al i [] = ([], None)"
| "show_keys al i (key # ks) =
     (case alias_of al (get_key_name key) of
        Inl e \<Rightarrow> ([], Some e)
      | Inr alias \<Rightarrow>
          (case show_keys al (Suc i) ks of
             (evs, r) \<Rightarrow> (Key_entry i (get_key_name key) alias # evs, r)))"

fun show_items :: "(string \<times> metadata) list \<Rightarrow> string list \<Rightarrow> event list \<times> error option" where
  "show_items al [] = ([], None)"
| "show_items al (key # ks) =
     (case alias_of al (get_key_name key) of
        Inl e \<Rightarrow> ([], Some e)
      | Inr alias \<Rightarrow>
          (case show_items al ks of
             (evs, r) \<Rightarrow> (Item (get_key_name key) alias # evs, r)))"

subsection \<open>Load and save\<close>

definition load_aliases :: "json_module \<Rightarrow> world \<Rightarrow> error option \<times> world" where
  "load_aliases J w =
     (case files w aliases_file of
        None \<Rightarrow> (None, w)
      | Some Dir \<Rightarrow> (Some IsADirectoryError, w)
      | Some (File txt) \<Rightarrow>
          (case json_load J (universal_newlines txt) of
             Inr a \<Rightarrow> (None, w\<lparr>aliases := a\<rparr>)
           | Inl e \<Rightarrow>
               if e = JSONDecodeError then (None, print Warning_could_not_load_aliases w)
               else (Some e, w)))"

definition save_aliases :: "json_module \<Rightarrow> world \<Rightarrow> error option \<times> world" where
  "save_aliases J w =
     (case files w aliases_file of
        Some Dir \<Rightarrow> (Some IsADirectoryError, w)
      | _ \<Rightarrow> (None, w\<lparr>files := (files w)(aliases_file \<mapsto> File (json_dump J (aliases w)))\<rparr>))"

text \<open>
  \<^verbatim>\<open>shutil.copy2(src, dst)\<close>: the source is opened first, then the destination; an empty
  \<open>dirname\<close> is the working directory.
\<close>

definition copy2 :: "string \<Rightarrow> string \<Rightarrow> (string \<Rightarrow> node option) \<Rightarrow> error + (string \<Rightarrow> node option)" where
  "copy2 src dst fs =
     (let dst' = (if fs dst = Some Dir then path_join dst (basename src) else dst)
      in case fs src of
           None \<Rightarrow> Inl FileNotFoundError
         | Some Dir \<Rightarrow> Inl IsADirectoryError
         | Some (File c) \<Rightarrow>
             (case (if dirname dst' = [] then Some Dir else fs (dirname dst')) of
                None \<Rightarrow> Inl FileNotFoundError
              | Some (File x) \<Rightarrow> Inl NotADirectoryError
              | Some Dir \<Rightarrow>
                  if fs dst' = Some Dir then Inl IsADirectoryError
                  else Inr (fs(dst' \<mapsto> File c))))"

text \<open>\<^verbatim>\<open>create_backup\<close>; \<open>ts\<close> is \<^verbatim>\<open>datetime.now().strftime("%Y%m%d_%H%M%S")\<close>.\<close>

definition create_backup :: "string \<Rightarrow> world \<Rightarrow> error option \<times> world" where
  "create_backup ts w =
     (let w1 = (if files w backup_dir = None then w\<lparr>files := (files w)(backup_dir \<mapsto> Dir)\<rparr> else w);
          backup_file = path_join backup_dir (''authorized_keys_'' @ ts)
      in case copy2 keys_file backup_file (files w1) of
           Inl e \<Rightarrow> (Some e, w1)
         | Inr fs' \<Rightarrow> (None, print (Backup_created backup_file) (w1\<lparr>files := fs'\<rparr>)))"

definition load_keys :: "world \<Rightarrow> error option \<times> world" where
  "load_keys w =
     (case files w keys_file of
        None \<Rightarrow> (None, w\<lparr>keys := []\<rparr>)
      | Some Dir \<Rightarrow> (Some IsADirectoryError, w)
      | Some (File content) \<Rightarrow> (None, w\<lparr>keys := stripped_lines content\<rparr>))"

definition save_keys :: "json_module \<Rightarrow> string \<Rightarrow> world \<Rightarrow> error option \<times> world" where
  "save_keys J ts w =
     (case create_backup ts w of
        (Some e, w1) \<Rightarrow> (Some e, w1)
      | (None, w1) \<Rightarrow>
          (case files w1 keys_file of
             Some Dir \<Rightarrow> (Some IsADirectoryError, w1)
           | _ \<Rightarrow>
               save_aliases J
                 (w1\<lparr>files := (files w1)(keys_file \<mapsto> File (join [LF] (keys w1) @ [LF]))\<rparr>)))"

text \<open>
  The first statements of \<^verbatim>\<open>__init__\<close>: \<^verbatim>\<open>self.aliases = {}\<close>, \<^verbatim>\<open>load_keys()\<close>,
  \<^verbatim>\<open>load_aliases()\<close>. The visibility check that follows touches neither the keys nor the
  metadata.
\<close>

definition new_manager :: "json_module \<Rightarrow> (string \<Rightarrow> node option) \<Rightarrow> string list \<Rightarrow> error option \<times> world" where
  "new_manager J fs inp =
     (case load_keys \<lparr>keys = [], aliases = [], files = fs, stdin = inp, stdout = []\<rparr> of
        (Some e, w) \<Rightarrow> (Some e, w)
      | (None, w) \<Rightarrow> load_aliases J w)"

text \<open>\<^verbatim>\<open>input(...)\<close> followed by \<^verbatim>\<open>sync_with_git(message)\<close> when the answer is \<^verbatim>\<open>y\<close>.\<close>

definition offer_sync :: "string \<Rightarrow> world \<Rightarrow> error option \<times> world" where
  "offer_sync message w =
     (case stdin w of
        [] \<Rightarrow> (Some EOFError, w)
      | answer # rest \<Rightarrow>
          (None, if py_lower answer = ''y'' then print (Git_sync message) (w\<lparr>stdin := rest\<rparr>)
                 else w\<lparr>stdin := rest\<rparr>))"

subsection \<open>Expiry and alias\<close>

definition set_expiry :: "json_module \<Rightarrow> int \<Rightarrow> string \<Rightarrow> world \<Rightarrow> error option \<times> world" where
  "set_expiry J key_idx date_str w =
     (if \<not> (0 \<le> key_idx \<and> key_idx < int (length (keys w)))
      then (None, print Invalid_key_index w)
      else
        let name = get_key_name (keys w ! nat key_idx);
            w1 = (if map_of (aliases w) name = None
                  then w\<lparr>aliases := AList.update name (Dict []) (aliases w)\<rparr> else w)
        in case map_of (aliases w1) name of
             Some (Dict d) \<Rightarrow>
               (case save_aliases J
                       (w1\<lparr>aliases :=
                          AList.update name (Dict (AList.update ''expiry'' date_str d)) (aliases w1)\<rparr>) of
                  (Some e, w2) \<Rightarrow> (Some e, w2)
                | (None, w2) \<Rightarrow> (None, print (Expiry_set date_str name) w2))
           | _ \<Rightarrow> (Some TypeError, w1))"

text \<open>
  \<^verbatim>\<open>set_alias\<close>. The only \<^verbatim>\<open>ValueError\<close> in its \<^verbatim>\<open>try\<close> block is the one of \<^verbatim>\<open>int\<close>.
\<close>

definition set_alias :: "world \<Rightarrow> error option \<times> world" where
  "set_alias w =
     (if keys w = [] then (None, print No_keys_available w)
      else
        let w1 = prints (Available_keys_header #
                   map (\<lambda>(i, key). Alias_entry i (get_key_name key)
                                      (map_of (aliases w) (get_key_name key)))
                     (List.enumerate 1 (keys w))) w
        in case stdin w1 of
             [] \<Rightarrow> (Some EOFError, w1)
           | line # rest \<Rightarrow>
               let w2 = w1\<lparr>stdin := rest\<rparr> in
               (case py_int (py_strip line) of
                  None \<Rightarrow> (None, print Invalid_selection w2)
                | Some n \<Rightarrow>
                    let idx = n - 1 in
                    if 0 \<le> idx \<and> idx < int (length (keys w2)) then
                      let name = get_key_name (keys w2 ! nat idx) in
                      (case stdin w2 of
                         [] \<Rightarrow> (Some EOFError, w2)
                       | line2 # rest2 \<Rightarrow>
                           let alias = py_strip line2; w3 = w2\<lparr>stdin := rest2\<rparr> in
                           if alias \<noteq> [] then
                             offer_sync (''Updated alias for '' @ name @ '': '' @ alias)
                               (w3\<lparr>aliases := AList.update name (Str alias) (aliases w3)\<rparr>)
                           else (None, w3))
                    else (None, w2)))"

subsection \<open>Capture\<close>

text \<open>
  The end of one round of the loop of \<^verbatim>\<open>capture_keys\<close>: the two prompts, the metadata
  and the append. \<open>now\<close> is \<^verbatim>\<open>datetime.now().strftime("%Y-%m-%d %H:%M:%S")\<close>. The third
  component is what the round appends to \<^verbatim>\<open>added_keys\<close>.
\<close>

definition add_key :: "string \<Rightarrow> string \<Rightarrow> world \<Rightarrow> error option \<times> world \<times> string list" where
  "add_key now key w =
     (let name = get_key_name key in
      case stdin w of
        [] \<Rightarrow> (Some EOFError, w, [])
      | line1 # rest1 \<Rightarrow>
          (case rest1 of
             [] \<Rightarrow> (Some EOFError, w\<lparr>stdin := []\<rparr>, [])
           | line2 # rest2 \<Rightarrow>
               let alias = py_strip line1;
                   expiry = py_strip line2;
                   metadata = [(''added'', now)]
                              @ (if alias \<noteq> [] then [(''alias'', alias)] else [])
                              @ (if expiry \<noteq> [] then [(''expiry'', expiry)] else [])
               in (None,
                   w\<lparr>stdin := rest2,
                     aliases := AList.update name (Dict metadata) (aliases w),
                     keys := keys w @ [key]\<rparr>,
                   [name])))"

definition capture_one :: "string \<Rightarrow> string \<Rightarrow> world \<Rightarrow> error option \<times> world \<times> string list" where
  "capture_one now key w =
     (case find_existing_key key (keys w) of
        None \<Rightarrow> add_key now key w
      | Some existing_idx \<Rightarrow>
          let w1 = print (Key_already_exists (get_key_name key)
                            (get_key_name (keys w ! existing_idx))) w
          in case stdin w1 of
               [] \<Rightarrow> (Some EOFError, w1, [])
             | answer # rest \<Rightarrow>
                 if py_lower answer \<noteq> ''y''
                 then (None, print Skipping_key (w1\<lparr>stdin := rest\<rparr>), [])
                 else
                   let old_name = get_key_name (keys w1 ! existing_idx)
                   in add_key now key
                        (w1\<lparr>stdin := rest,
                           aliases := AList.delete old_name (aliases w1),
                           keys := del_at existing_idx (keys w1)\<rparr>))"

fun capture_loop :: "string \<Rightarrow> string list \<Rightarrow> int list \<Rightarrow> world \<Rightarrow> string list \<Rightarrow> error option \<times> world \<times> string list" where
  "capture_loop now system_keys [] w added_keys = (None, w, added_keys)"
| "capture_loop now system_keys (idx # rest) w added_keys =
     (if 0 \<le> idx \<and> idx < int (length system_keys) then
        (case capture_one now (system_keys ! nat idx) w of
           (Some e, w', names) \<Rightarrow> (Some e, w', added_keys @ names)
         | (None, w', names) \<Rightarrow> capture_loop now system_keys rest w' (added_keys @ names))
      else capture_loop now system_keys rest w added_keys)"

text \<open>
  \<^verbatim>\<open>capture_keys\<close>; \<open>system_keys\<close> is the result of \<^verbatim>\<open>get_system_keys()\<close>, \<open>ts\<close> the clock
  reading of the backup.
\<close>

definition capture_keys :: "json_module \<Rightarrow> string \<Rightarrow> string \<Rightarrow> string list \<Rightarrow> world \<Rightarrow> error option \<times> world" where
  "capture_keys J now ts system_keys w =
     (if system_keys = [] then (None, print No_system_keys w)
      else
        let w1 = prints (Found_keys_header #
                   map (\<lambda>(i, key). Numbered i (get_key_name key))
                     (List.enumerate 1 system_keys)) w
        in case stdin w1 of
             [] \<Rightarrow> (Some EOFError, w1)
           | line # rest \<Rightarrow>
               let w2 = w1\<lparr>stdin := rest\<rparr>; selection = py_strip line in
               if selection = [] then (None, w2)
               else
                 (case (if py_lower selection = ''all''
                        then Some (map int [0..<length system_keys])
                        else parse_indices selection) of
                    None \<Rightarrow> (None, print Invalid_selection w2)
                  | Some indices \<Rightarrow>
                      (case capture_loop now system_keys indices w2 [] of
                         (Some e, w3, added_keys) \<Rightarrow> (Some e, w3)
                       | (None, w3, added_keys) \<Rightarrow>
                           if added_keys = [] then (None, w3)
                           else
                             (case save_keys J ts w3 of
                                (Some e, w4) \<Rightarrow> (Some e, w4)
                              | (None, w4) \<Rightarrow>
                                  offer_sync (''Added keys: '' @ join '', '' added_keys) w4))))"

subsection \<open>Deploy\<close>

text \<open>
  The directory and the target of \<^verbatim>\<open>deploy_keys\<close>, \<^verbatim>\<open>ssh_dir\<close> and \<^verbatim>\<open>auth_keys_file\<close>, by the
  names under which the file system has them.
\<close>

definition deploy_dir :: "operating_system \<Rightarrow> string \<Rightarrow> string" where
  "deploy_dir os home = seen_from (working_directory os) (ssh_dir home)"

definition deploy_target :: "operating_system \<Rightarrow> string \<Rightarrow> string" where
  "deploy_target os home = seen_from (working_directory os) (auth_keys_file home)"

text \<open>
  The part of \<^verbatim>\<open>deploy_keys\<close> after \<^verbatim>\<open>keys_to_add\<close> is known to be non-empty: the append
  (which creates a target that does not exist), the change of mode and the verification.
  \<open>target\<close> is the file that is written and \<open>location\<close> the path that is printed. File
  modes are not represented.
\<close>

definition write_and_verify :: "string \<Rightarrow> string \<Rightarrow> operating_system \<Rightarrow> string list \<Rightarrow> world \<Rightarrow> error option \<times> world" where
  "write_and_verify target location os keys_to_add w =
     (if append_fails os then (None, print Error_writing w)
      else
        let content = file_text (files w target) @ concat (map (\<lambda>key. key @ [LF]) keys_to_add);
            w1 = w\<lparr>files := (files w)(target \<mapsto> File content)\<rparr>;
            w2 = (if chmod_fails os then print Warning_permissions w1 else w1)
        in if verify_fails os then (None, print Error_verifying w2)
           else
             let deployed_keys = set (stripped_lines content);
                 successfully_deployed =
                   map get_key_name (filter (\<lambda>key. key \<in> deployed_keys) keys_to_add);
                 failed_deployments =
                   map get_key_name (filter (\<lambda>key. key \<notin> deployed_keys) keys_to_add)
             in (None,
                 prints
                   ((if successfully_deployed \<noteq> []
                     then Deployed_header # map Deployed successfully_deployed else [])
                    @ (if failed_deployments \<noteq> []
                       then Failed_header # map Failed failed_deployments else [])
                    @ [Deployment_location location]
                    @ (if successfully_deployed \<noteq> [] then [Permissions_shown] else []))
                   w2))"

text \<open>
  \<^verbatim>\<open>selected_keys\<close> of \<^verbatim>\<open>deploy_keys\<close>: every key for \<^verbatim>\<open>all\<close>, else the keys at the typed
  indices that are in range; \<open>None\<close> is the \<^verbatim>\<open>ValueError\<close> of \<^verbatim>\<open>int\<close>.
\<close>

definition selected_keys :: "string \<Rightarrow> string list \<Rightarrow> string list option" where
  "selected_keys selection ks =
     (if py_lower selection = ''all'' then Some ks
      else map_option
             (\<lambda>indices. map (\<lambda>i. ks ! nat i) (filter (\<lambda>i. 0 \<le> i \<and> i < int (length ks)) indices))
             (parse_indices selection))"

text \<open>
  \<^verbatim>\<open>existing_keys\<close> of \<^verbatim>\<open>deploy_keys\<close>: empty when the target does not exist; \<open>None\<close> is the
  \<^verbatim>\<open>OSError\<close> of reading it.
\<close>

definition existing_keys :: "operating_system \<Rightarrow> node option \<Rightarrow> string set option" where
  "existing_keys os n =
     (case n of
        None \<Rightarrow> Some {}
      | Some Dir \<Rightarrow> None
      | Some (File c) \<Rightarrow> if read_fails os then None else Some (set (stripped_lines c)))"

text \<open>
  The part of \<^verbatim>\<open>deploy_keys\<close> after the prompt, from \<^verbatim>\<open>os.makedirs\<close> on, which fails
  when the operating system refuses it or the path is a file.
\<close>

definition deploy_selection :: "string \<Rightarrow> operating_system \<Rightarrow> string \<Rightarrow> world \<Rightarrow> error option \<times> world" where
  "deploy_selection home os selection w =
     (if makedirs_fails os \<or> is_file (files w (deploy_dir os home))
      then (None, print Error_creating_ssh_dir w)
      else
        let w1 = w\<lparr>files := (files w)(deploy_dir os home \<mapsto> Dir)\<rparr>;
            target = deploy_target os home
        in case selected_keys selection (keys w1) of
             None \<Rightarrow> (None, print Invalid_selection w1)
           | Some selected \<Rightarrow>
               (case existing_keys os (files w1 target) of
                  None \<Rightarrow> (None, print Error_reading_authorized_keys w1)
                | Some existing \<Rightarrow>
                    let keys_to_add = filter (\<lambda>key. key \<notin> existing) selected
                    in if keys_to_add = [] then (None, print All_already_deployed w1)
                       else write_and_verify target (auth_keys_file home) os keys_to_add w1))"

definition deploy_keys :: "string \<Rightarrow> operating_system \<Rightarrow> world \<Rightarrow> error option \<times> world" where
  "deploy_keys home os w =
     (if keys w = [] then (None, print No_keys_to_deploy w)
      else
        case show_keys (aliases w) 1 (keys w) of
          (shown, Some e) \<Rightarrow> (Some e, prints (Available_keys_header # shown) w)
        | (shown, None) \<Rightarrow>
            let w1 = prints (Available_keys_header # shown) w
            in case stdin w1 of
                 [] \<Rightarrow> (Some EOFError, w1)
               | line # rest \<Rightarrow>
                   let w2 = w1\<lparr>stdin := rest\<rparr>; selection = py_strip line in
                   if selection = [] then (None, w2)
                   else deploy_selection home os selection w2)"

subsection \<open>Delete\<close>

text \<open>The deletion loop of \<^verbatim>\<open>delete_keys\<close>, on the keys, the metadata and \<^verbatim>\<open>deleted_keys\<close>.\<close>

fun delete_loop :: "int list \<Rightarrow> string list \<Rightarrow> (string \<times> metadata) list \<Rightarrow> string list \<Rightarrow> string list \<times> (string \<times> metadata) list \<times> string list" where
  "delete_loop [] ks al deleted_keys = (ks, al, deleted_keys)"
| "delete_loop (idx # rest) ks al deleted_keys =
     (if 0 \<le> idx \<and> idx < int (length ks) then
        let name = get_key_name (ks ! nat idx)
        in delete_loop rest (del_at (nat idx) ks) (AList.delete name al) (deleted_keys @ [name])
      else delete_loop rest ks al deleted_keys)"

text \<open>The part of \<^verbatim>\<open>delete_keys\<close> after \<^verbatim>\<open>to_delete\<close> is known.\<close>

definition perform_deletion :: "json_module \<Rightarrow> string \<Rightarrow> int list \<Rightarrow> world \<Rightarrow> error option \<times> world" where
  "perform_deletion J ts to_delete w =
     (case delete_loop to_delete (keys w) (aliases w) [] of
        (ks, al, deleted_keys) \<Rightarrow>
          let w1 = w\<lparr>keys := ks, aliases := al\<rparr> in
          if deleted_keys = [] then (None, w1)
          else
            (case save_keys J ts w1 of
               (Some e, w2) \<Rightarrow> (Some e, w2)
             | (None, w2) \<Rightarrow>
                 offer_sync (''Deleted keys: '' @ join '', '' deleted_keys)
                   (prints (Deleted_count (length deleted_keys) # map Deleted_item deleted_keys) w2)))"

text \<open>
  The confirmation of \<^verbatim>\<open>delete_keys\<close>: the header, the keys about to go, the prompt. On
  \<^verbatim>\<open>yes\<close> the deletion runs over \<open>to_delete\<close>.
\<close>

definition confirm_deletion :: "json_module \<Rightarrow> string \<Rightarrow> event \<Rightarrow> string list \<Rightarrow> int list \<Rightarrow> world \<Rightarrow> error option \<times> world" where
  "confirm_deletion J ts header listed to_delete w =
     (case show_items (aliases w) listed of
        (shown, Some e) \<Rightarrow> (Some e, prints (header # shown) w)
      | (shown, None) \<Rightarrow>
          let w1 = prints (header # shown) w
          in case stdin w1 of
               [] \<Rightarrow> (Some EOFError, w1)
             | confirm # rest \<Rightarrow>
                 if py_lower confirm = ''yes''
                 then perform_deletion J ts to_delete (w1\<lparr>stdin := rest\<rparr>)
                 else (None, print Operation_cancelled (w1\<lparr>stdin := rest\<rparr>)))"

definition delete_keys :: "json_module \<Rightarrow> string \<Rightarrow> world \<Rightarrow> error option \<times> world" where
  "delete_keys J ts w =
     (if keys w = [] then (None, print No_keys_to_delete w)
      else
        case show_keys (aliases w) 1 (keys w) of
          (shown, Some e) \<Rightarrow> (Some e, prints (Available_keys_header # shown) w)
        | (shown, None) \<Rightarrow>
            let w1 = prints (Available_keys_header # shown) w
            in case stdin w1 of
                 [] \<Rightarrow> (Some EOFError, w1)
               | line # rest \<Rightarrow>
                   let w2 = w1\<lparr>stdin := rest\<rparr>; selection = py_strip line in
                   if selection = [] then (None, w2)
                   else if py_lower selection = ''all''
                   then confirm_deletion J ts About_to_delete_all (keys w2)
                          (map int [0..<length (keys w2)]) w2
                   else
                     (case parse_indices selection of
                        None \<Rightarrow> (None, print Invalid_selection w2)
                      | Some parsed \<Rightarrow>
                          let indices = rev (sort parsed)
                          in confirm_deletion J ts About_to_delete_these
                               (map (\<lambda>idx. keys w2 ! nat idx)
                                  (filter (\<lambda>idx. 0 \<le> idx \<and> idx < int (length (keys w2))) indices))
                               indices w2))"

subsection \<open>Well-formed key lines\<close>

text \<open>
  A key line as \<^verbatim>\<open>load_keys\<close> produces it: not empty, nothing for \<^verbatim>\<open>strip\<close> to remove,
  no line break inside.
\<close>

definition key_line :: "string \<Rightarrow> bool" where
  "key_line k = (k \<noteq> [] \<and> py_strip k = k \<and> LF \<notin> set k \<and> CR \<notin> set k)"

subsection \<open>The invariant of the metadata\<close>

text \<open>
  Every display name that has a metadata entry is the display name of a key of the list;
  first on a key list and a metadata mapping, then on the world.
\<close>

definition covered :: "string list \<Rightarrow> (string \<times> metadata) list \<Rightarrow> bool" where
  "covered ks al = (fst ` set al \<subseteq> get_key_name ` set ks)"

definition no_orphan_metadata :: "world \<Rightarrow> bool" where
  "no_orphan_metadata w = (fst ` set (aliases w) \<subseteq> get_key_name ` set (keys w))"

subsection \<open>Examples\<close>

text \<open>
  A stand-in for the \<^verbatim>\<open>json\<close> module: it reads the empty object and the one sidecar text
  below, rejects every other text, and always writes the empty object.
\<close>

definition example_sidecar :: string where
  "example_sidecar =
     ''{'' @ [CHR 0x22] @ ''alice@laptop'' @ [CHR 0x22] @ '': {'' @ [CHR 0x22] @ ''added''
     @ [CHR 0x22] @ '': '' @ [CHR 0x22] @ ''2024-01-01 10:00:00'' @ [CHR 0x22] @ ''}}''"

definition example_json :: json_module where
  "example_json =
     \<lparr>json_load =
        (\<lambda>s. if s = ''{}'' then Inr []
             else if s = example_sidecar
             then Inr [(''alice@laptop'', Dict [(''added'', ''2024-01-01 10:00:00'')])]
             else Inl JSONDecodeError),
      json_dump = (\<lambda>a. ''{}'')\<rparr>"


text \<open>
  An operating system that refuses nothing, with the program run in \<^verbatim>\<open>/srv/keys\<close> and in
  \<^verbatim>\<open>/home/u/.ssh\<close>, and an inventory of one key.
\<close>

definition no_refusals :: operating_system where
  "no_refusals = \<lparr>working_directory = ''/srv/keys'',
                   makedirs_fails = False, read_fails = False, append_fails = False,
                   chmod_fails = False, verify_fails = False\<rparr>"

definition in_ssh_dir :: operating_system where
  "in_ssh_dir = no_refusals\<lparr>working_directory := ''/home/u/.ssh''\<rparr>"

definition deploy_example :: world where
  "deploy_example =
     \<lparr>keys = [''ssh-ed25519 AAAAC3 alice@laptop''],
      aliases = [(''alice@laptop'', Dict [(''added'', ''2024-01-01 10:00:00'')])],
      files = Map.empty(keys_file \<mapsto> File (''ssh-ed25519 AAAAC3 alice@laptop'' @ [LF]),
                        aliases_file \<mapsto> File ''{}''),
      stdin = [''all''], stdout = []\<rparr>"

text \<open>
  An inventory of two keys with no metadata, a target that holds \<open>present\<close>, and the lines
  the user is going to type.
\<close>

definition two_keys_world :: "string \<Rightarrow> string list \<Rightarrow> world" where
  "two_keys_world present inp =
     \<lparr>keys = [''ssh-ed25519 AAAAC3 alice@laptop'', ''ssh-rsa AAAAB3 bob@desk''],
      aliases = [],
      files = Map.empty(auth_keys_file ''/home/u'' \<mapsto> File present),
      stdin = inp, stdout = []\<rparr>"

section \<open>Properties\<close>

subsection \<open>Paths\<close>

lemma path_neq [simp]:
  "backup_dir \<noteq> keys_file" "keys_file \<noteq> backup_dir"
  "aliases_file \<noteq> keys_file" "keys_file \<noteq> aliases_file"
  "aliases_file \<noteq> backup_dir" "backup_dir \<noteq> aliases_file"
  by (simp_all add: backup_dir_def keys_file_def aliases_file_def)

subsection \<open>Display names\<close>

text \<open>
  C3. The claim: with more than two whitespace-separated fields the display name is the
  comment, everything after type and material. The code returns the last field only:
  on a line whose comment is \<^verbatim>\<open>John Doe\<close> the display name is \<^verbatim>\<open>Doe\<close>.
\<close>

theorem get_key_name_last_field_only:
  "get_key_name ''ssh-rsa AAAAB3Nza John Doe'' = ''Doe''"
  by (simp add: get_key_name_def py_split_def py_strip_def py_isspace_def)

lemma get_key_name_few_fields:
  "length (py_split (py_strip key)) \<le> 2 \<Longrightarrow> get_key_name key = ''Unknown''"
  by (simp add: get_key_name_def)

subsection \<open>Saving\<close>

lemma create_backup_missing:
  "files w keys_file = None \<Longrightarrow>
     create_backup ts w =
       (Some FileNotFoundError,
        if files w backup_dir = None then w\<lparr>files := (files w)(backup_dir \<mapsto> Dir)\<rparr> else w)"
  by (simp add: create_backup_def copy2_def Let_def)

text \<open>
  C5. The claim: when no key-list file exists yet, the backup step is skipped and the
  save completes. The code copies the file unconditionally: with no key-list file
  \<^verbatim>\<open>save_keys\<close> leaves with \<^verbatim>\<open>FileNotFoundError\<close> from \<^verbatim>\<open>create_backup\<close>, and neither the key
  list nor the sidecar is written.
\<close>

theorem save_keys_first_save_raises:
  assumes "files w keys_file = None"
  shows "fst (save_keys J ts w) = Some FileNotFoundError
         \<and> files (snd (save_keys J ts w)) keys_file = None
         \<and> files (snd (save_keys J ts w)) aliases_file = files w aliases_file"
  using assms by (simp add: save_keys_def create_backup_missing)

theorem save_keys_first_save_raises_witness:
  "fst (save_keys example_json ''20240101_100000''
          \<lparr>keys = [''ssh-ed25519 AAAAC3 alice@laptop''], aliases = [], files = Map.empty,
           stdin = [], stdout = []\<rparr>) = Some FileNotFoundError
   \<and> files (snd (save_keys example_json ''20240101_100000''
          \<lparr>keys = [''ssh-ed25519 AAAAC3 alice@laptop''], aliases = [], files = Map.empty,
           stdin = [], stdout = []\<rparr>)) keys_file = None"
  using save_keys_first_save_raises
    [of "\<lparr>keys = [''ssh-ed25519 AAAAC3 alice@laptop''], aliases = [], files = Map.empty,
          stdin = [], stdout = []\<rparr>" example_json "''20240101_100000''"]
  by simp

subsection \<open>Loading the sidecar\<close>


text \<open>
  Any other exception of \<^verbatim>\<open>json.load\<close> is not caught: it leaves \<^verbatim>\<open>load_aliases\<close>, and so the
  constructor, with nothing printed and the mapping as it was.
\<close>

lemma load_aliases_uncaught:
  assumes "files w aliases_file = Some (File txt)"
    and "json_load J (universal_newlines txt) = Inl e" and "e \<noteq> JSONDecodeError"
  shows "load_aliases J w = (Some e, w)"
  using assms by (simp add: load_aliases_def)

lemma new_manager_uncaught:
  assumes "fs aliases_file = Some (File txt)"
    and "json_load J (universal_newlines txt) = Inl e" and "e \<noteq> JSONDecodeError"
    and "fs keys_file \<noteq> Some Dir"
  shows "fst (new_manager J fs inp) = Some e
         \<and> aliases (snd (new_manager J fs inp)) = []
         \<and> stdout (snd (new_manager J fs inp)) = []"
proof (cases "fs keys_file")
  case None
  then show ?thesis
    using assms by (simp add: new_manager_def load_keys_def load_aliases_uncaught)
next
  case (Some n)
  with assms(4) obtain c where "fs keys_file = Some (File c)"
    by (cases n) auto
  then show ?thesis
    using assms by (simp add: new_manager_def load_keys_def load_aliases_uncaught)
qed




subsection \<open>Setting an alias\<close>

text \<open>
  C7. The claim: set-alias overwrites only the alias field of the structured record and
  saves. The code replaces the whole entry of the display name by the bare alias
  string, so expiry and added are lost, and writes no file.
\<close>

theorem set_alias_stores_bare_string_unsaved:
  assumes "stdin w = line # line2 # rest"
    and "py_int (py_strip line) = Some n"
    and "1 \<le> n" and "n \<le> int (length (keys w))"
    and "py_strip line2 \<noteq> []"
  shows "aliases (snd (set_alias w))
           = AList.update (get_key_name (keys w ! nat (n - 1))) (Str (py_strip line2)) (aliases w)
         \<and> files (snd (set_alias w)) = files w"
proof -
  have "keys w \<noteq> []" using assms(3,4) by auto
  then show ?thesis
    using assms
    by (simp add: set_alias_def prints_def offer_sync_def print_def Let_def split: list.splits)
qed

theorem set_alias_stores_bare_string_unsaved_witness:
  "map_of (aliases (snd (set_alias
      \<lparr>keys = [''ssh-ed25519 AAAAC3 alice@laptop''],
       aliases = [(''alice@laptop'',
                   Dict [(''added'', ''2024-01-01 10:00:00''), (''expiry'', ''2030-01-01'')])],
       files = Map.empty, stdin = [''1'', ''work'', ''n''], stdout = []\<rparr>))) ''alice@laptop''
     = Some (Str ''work'')
   \<and> files (snd (set_alias
      \<lparr>keys = [''ssh-ed25519 AAAAC3 alice@laptop''],
       aliases = [(''alice@laptop'',
                   Dict [(''added'', ''2024-01-01 10:00:00''), (''expiry'', ''2030-01-01'')])],
       files = Map.empty, stdin = [''1'', ''work'', ''n''], stdout = []\<rparr>)) aliases_file = None"
proof -
  let ?w = "\<lparr>keys = [''ssh-ed25519 AAAAC3 alice@laptop''],
       aliases = [(''alice@laptop'',
                   Dict [(''added'', ''2024-01-01 10:00:00''), (''expiry'', ''2030-01-01'')])],
       files = Map.empty, stdin = [''1'', ''work'', ''n''], stdout = []\<rparr>"
  have 1: "stdin ?w = ''1'' # ''work'' # [''n'']" by simp
  have 2: "py_int (py_strip ''1'') = Some 1" by code_simp
  have 3: "py_strip ''work'' \<noteq> []" by code_simp
  have 4: "py_strip ''work'' = ''work''" by code_simp
  have 5: "get_key_name ''ssh-ed25519 AAAAC3 alice@laptop'' = ''alice@laptop''" by code_simp
  show ?thesis
    using set_alias_stores_bare_string_unsaved [OF 1 2 _ _ 3] by (simp add: 4 5)
qed

subsection \<open>Deleting\<close>

text \<open>
  C4. The claim: delete removes exactly the selected entries. For \<^verbatim>\<open>all\<close> the code walks
  the indices upwards while the list shrinks under them: of three keys the second one
  survives a confirmed deletion of all keys.
\<close>

theorem delete_all_keeps_every_second_key:
  "keys (snd (delete_keys example_json ''20240101_100000''
      \<lparr>keys = [''ssh-rsa AAAA1 a@x'', ''ssh-rsa AAAA2 b@x'', ''ssh-rsa AAAA3 c@x''],
       aliases = [],
       files = Map.empty(keys_file \<mapsto> File []),
       stdin = [''all'', ''yes'', ''n''], stdout = []\<rparr>))
   = [''ssh-rsa AAAA2 b@x'']"
  by code_simp

text \<open>
  An index typed twice is deleted twice: the second deletion removes the entry that has
  moved into its place.
\<close>

lemma delete_repeated_index_removes_neighbour:
  "keys (snd (delete_keys example_json ''20240101_100000''
      \<lparr>keys = [''ssh-rsa AAAA1 a@x'', ''ssh-rsa AAAA2 b@x'', ''ssh-rsa AAAA3 c@x''],
       aliases = [],
       files = Map.empty(keys_file \<mapsto> File []),
       stdin = [''2,2'', ''yes'', ''n''], stdout = []\<rparr>))
   = [''ssh-rsa AAAA1 a@x'']"
  by code_simp

subsection \<open>Lines of text\<close>

lemma LF_space [simp]: "py_isspace LF"
  by (simp add: py_isspace_def LF_def)

lemma CR_neq_LF [simp]: "CR \<noteq> LF" "LF \<noteq> CR"
  by (simp_all add: CR_def LF_def)

lemma last_dropWhile: "dropWhile P xs \<noteq> [] \<Longrightarrow> last (dropWhile P xs) = last xs"
  by (induction xs) (auto split: if_splits)

lemma py_strip_ends:
  assumes "py_strip s \<noteq> []"
  shows "\<not> py_isspace (hd (py_strip s)) \<and> \<not> py_isspace (last (py_strip s))"
proof -
  let ?m = "dropWhile py_isspace s"
  let ?r = "dropWhile py_isspace (rev ?m)"
  have r: "?r \<noteq> []" using assms by (simp add: py_strip_def)
  have m: "?m \<noteq> []"
  proof
    assume "?m = []"
    then have "?r = []" by (simp only: rev.simps dropWhile.simps)
    with r show False by simp
  qed
  have "\<not> py_isspace (hd ?r)" using r by (rule hd_dropWhile)
  moreover have "last ?r = hd ?m"
    using r m by (simp add: last_dropWhile last_rev)
  moreover have "\<not> py_isspace (hd ?m)" using m by (rule hd_dropWhile)
  ultimately show ?thesis
    using r by (simp add: py_strip_def hd_rev last_rev)
qed

lemma py_strip_fixed:
  assumes "k \<noteq> []" and "\<not> py_isspace (hd k)" and "\<not> py_isspace (last k)"
  shows "py_strip k = k"
proof -
  have "dropWhile py_isspace k = k"
    using assms by (simp add: dropWhile_eq_self_iff)
  moreover have "dropWhile py_isspace (rev k) = rev k"
    using assms by (simp add: dropWhile_eq_self_iff hd_rev)
  ultimately show ?thesis by (simp add: py_strip_def)
qed

lemma key_line_ends:
  "key_line k \<Longrightarrow> \<not> py_isspace (hd k) \<and> \<not> py_isspace (last k)"
  using py_strip_ends [of k] by (simp add: key_line_def)

lemma py_strip_key_line: "key_line k \<Longrightarrow> py_strip (k @ [LF]) = k"
proof -
  assume k: "key_line k"
  then have ne: "k \<noteq> []" and h: "\<not> py_isspace (hd k)" and l: "\<not> py_isspace (last k)"
    using key_line_ends by (auto simp: key_line_def)
  have "dropWhile py_isspace (k @ [LF]) = k @ [LF]"
    using ne h by (simp add: dropWhile_eq_self_iff)
  moreover have "dropWhile py_isspace (rev k) = rev k"
    using ne l by (simp add: dropWhile_eq_self_iff hd_rev)
  ultimately show ?thesis by (simp add: py_strip_def)
qed

lemma universal_newlines_id: "CR \<notin> set s \<Longrightarrow> universal_newlines s = s"
  by (induction s rule: universal_newlines.induct) auto

lemma universal_newlines_append:
  "a = [] \<or> last a \<noteq> CR \<Longrightarrow>
     universal_newlines (a @ s) = universal_newlines a @ universal_newlines s"
proof (induction a rule: universal_newlines.induct)
  case 1
  then show ?case by simp
next
  case (2 c)
  then show ?case by (cases s) auto
next
  case (3 c d cs)
  then show ?case by (cases "cs = []") auto
qed

lemma universal_newlines_last:
  "a \<noteq> [] \<Longrightarrow> last a = LF \<Longrightarrow>
     universal_newlines a \<noteq> [] \<and> last (universal_newlines a) = LF"
proof (induction a rule: universal_newlines.induct)
  case 1
  then show ?case by simp
next
  case (2 c)
  then show ?case by simp
next
  case (3 c d cs)
  then show ?case by (cases "cs = []") (auto split: if_splits)
qed

lemma lines_from_append:
  "a \<noteq> [] \<Longrightarrow> last a = LF \<Longrightarrow> lines_from cur (a @ s) = lines_from cur a @ lines_from [] s"
proof (induction a arbitrary: cur)
  case Nil
  then show ?case by simp
next
  case (Cons c a)
  then show ?case by (cases "a = []") auto
qed

lemma lines_from_line:
  "LF \<notin> set k \<Longrightarrow> lines_from cur (k @ LF # rest) = (cur @ k @ [LF]) # lines_from [] rest"
  by (induction k arbitrary: cur) auto

lemma lines_from_concat:
  "\<forall>k\<in>set ks. LF \<notin> set k \<Longrightarrow>
     lines_from [] (concat (map (\<lambda>k. k @ [LF]) ks)) = map (\<lambda>k. k @ [LF]) ks"
  by (induction ks) (auto simp: lines_from_line)

lemma concat_lines_no_CR:
  "\<forall>k\<in>set ks. CR \<notin> set k \<Longrightarrow> CR \<notin> set (concat (map (\<lambda>k. k @ [LF]) ks))"
  by (induction ks) auto

lemma stripped_lines_keys:
  assumes "\<forall>k\<in>set ks. key_line k"
  shows "stripped_lines (concat (map (\<lambda>k. k @ [LF]) ks)) = ks"
proof -
  have "file_lines (concat (map (\<lambda>k. k @ [LF]) ks)) = map (\<lambda>k. k @ [LF]) ks"
    using assms
    by (simp add: file_lines_def universal_newlines_id concat_lines_no_CR lines_from_concat key_line_def)
  moreover have "filter (\<lambda>l. l \<noteq> []) (map py_strip (map (\<lambda>k. k @ [LF]) ks)) = ks"
    using assms by (induction ks) (auto simp: py_strip_key_line key_line_def)
  ultimately show ?thesis by (simp add: stripped_lines_def)
qed

lemma stripped_lines_append_keys:
  assumes "c = [] \<or> last c = LF" and "\<forall>k\<in>set ks. key_line k"
  shows "stripped_lines (c @ concat (map (\<lambda>k. k @ [LF]) ks)) = stripped_lines c @ ks"
proof (cases "c = []")
  case True
  have "stripped_lines [] = []"
    by (simp add: stripped_lines_def file_lines_def)
  with True show ?thesis using assms by (simp add: stripped_lines_keys)
next
  case False
  let ?s = "concat (map (\<lambda>k. k @ [LF]) ks)"
  from False assms have l: "last c = LF" by simp
  then have "universal_newlines (c @ ?s) = universal_newlines c @ universal_newlines ?s"
    by (simp add: universal_newlines_append)
  then have "file_lines (c @ ?s) = file_lines c @ file_lines ?s"
    using universal_newlines_last [OF False l]
    by (simp add: file_lines_def lines_from_append)
  then show ?thesis
    using stripped_lines_keys [OF assms(2)] by (simp add: stripped_lines_def)
qed

lemma join_lines: "ks \<noteq> [] \<Longrightarrow> join [LF] ks @ [LF] = concat (map (\<lambda>k. k @ [LF]) ks)"
  by (induction ks rule: join.induct[where ?a0.0 = "[LF]"]) auto

lemma stripped_lines_join:
  assumes "\<forall>k\<in>set ks. key_line k"
  shows "stripped_lines (join [LF] ks @ [LF]) = ks"
proof (cases "ks = []")
  case True
  then show ?thesis
    by (simp add: stripped_lines_def file_lines_def py_strip_def)
next
  case False
  then show ?thesis using assms by (simp add: join_lines stripped_lines_keys)
qed

lemma py_strip_snoc_space:
  assumes "py_isspace c"
  shows "py_strip (m @ [c]) = py_strip m"
proof (cases "\<forall>x\<in>set m. py_isspace x")
  case True
  then have "dropWhile py_isspace m = []" by simp
  moreover from True assms have "dropWhile py_isspace (m @ [c]) = []" by simp
  ultimately show ?thesis by (simp only: py_strip_def)
next
  case False
  then have "dropWhile py_isspace (m @ [c]) = dropWhile py_isspace m @ [c]"
    by (auto simp: dropWhile_append1)
  with assms show ?thesis by (simp add: py_strip_def)
qed

lemma set_py_strip: "set (py_strip s) \<subseteq> set s"
  by (auto simp: py_strip_def dest!: set_dropWhileD)

lemma universal_newlines_no_CR: "CR \<notin> set (universal_newlines s)"
  by (induction s rule: universal_newlines.induct) auto

lemma lines_from_shape:
  "l \<in> set (lines_from cur s) \<Longrightarrow> LF \<notin> set cur \<Longrightarrow>
     \<exists>m. LF \<notin> set m \<and> (l = m @ [LF] \<or> l = m)"
proof (induction s arbitrary: cur)
  case Nil
  then show ?case by (auto split: if_splits)
next
  case (Cons c s)
  show ?case
  proof (cases "c = LF")
    case True
    with Cons.prems have "l = cur @ [LF] \<or> l \<in> set (lines_from [] s)" by auto
    then show ?thesis
    proof
      assume "l = cur @ [LF]"
      with Cons.prems(2) show ?thesis by blast
    next
      assume "l \<in> set (lines_from [] s)"
      then show ?thesis using Cons.IH [of "[]"] by simp
    qed
  next
    case False
    with Cons.prems have "l \<in> set (lines_from (cur @ [c]) s)" by simp
    moreover from False Cons.prems(2) have "LF \<notin> set (cur @ [c])" by simp
    ultimately show ?thesis by (rule Cons.IH)
  qed
qed

lemma lines_from_set: "l \<in> set (lines_from cur s) \<Longrightarrow> set l \<subseteq> set cur \<union> set s"
proof (induction s arbitrary: cur)
  case Nil
  then show ?case by (auto split: if_splits)
next
  case (Cons c s)
  show ?case
  proof (cases "c = LF")
    case True
    with Cons.prems have "l = cur @ [LF] \<or> l \<in> set (lines_from [] s)" by auto
    then show ?thesis
      using Cons.IH [of "[]"] True by auto
  next
    case False
    with Cons.prems have "l \<in> set (lines_from (cur @ [c]) s)" by simp
    then show ?thesis
      using Cons.IH [of "cur @ [c]"] by auto
  qed
qed

text \<open>Every line that \<^verbatim>\<open>load_keys\<close> reads is a key line.\<close>

lemma stripped_lines_key_line:
  assumes "k \<in> set (stripped_lines c)"
  shows "key_line k"
proof -
  from assms obtain l where l: "l \<in> set (file_lines c)" and k: "k = py_strip l" and ne: "k \<noteq> []"
    by (auto simp: stripped_lines_def)
  from l obtain m where m: "LF \<notin> set m" and lm: "l = m @ [LF] \<or> l = m"
    using lines_from_shape [of l "[]" "universal_newlines c"] by (auto simp: file_lines_def)
  from lm have km: "k = py_strip m"
    using k by (auto simp: py_strip_snoc_space)
  have "set l \<subseteq> set (universal_newlines c)"
    using l lines_from_set [of l "[]"] by (auto simp: file_lines_def)
  then have "CR \<notin> set l" using universal_newlines_no_CR [of c] by auto
  then have "CR \<notin> set k" using k set_py_strip [of l] by auto
  moreover have "LF \<notin> set k" using km m set_py_strip [of m] by auto
  moreover have "py_strip k = k"
    using ne py_strip_ends [of l] k by (simp add: py_strip_fixed)
  ultimately show ?thesis using ne by (simp add: key_line_def)
qed

lemma create_backup_memory [simp]:
  "keys (snd (create_backup ts w)) = keys w"
  "aliases (snd (create_backup ts w)) = aliases w"
  "stdin (snd (create_backup ts w)) = stdin w"
  by (simp_all add: create_backup_def Let_def print_def split: sum.splits)

lemma save_aliases_memory [simp]:
  "keys (snd (save_aliases J w)) = keys w"
  "aliases (snd (save_aliases J w)) = aliases w"
  "stdin (snd (save_aliases J w)) = stdin w"
  by (simp_all add: save_aliases_def split: option.splits node.splits)

lemma save_keys_memory [simp]:
  "keys (snd (save_keys J ts w)) = keys w"
  "aliases (snd (save_keys J ts w)) = aliases w"
  "stdin (snd (save_keys J ts w)) = stdin w"
proof -
  obtain e w1 where cb: "create_backup ts w = (e, w1)" by (cases "create_backup ts w")
  then have m: "keys w1 = keys w" "aliases w1 = aliases w" "stdin w1 = stdin w"
    using create_backup_memory [of ts w] by simp_all
  show "keys (snd (save_keys J ts w)) = keys w"
    using cb m by (auto simp: save_keys_def split: option.splits node.splits)
  show "aliases (snd (save_keys J ts w)) = aliases w"
    using cb m by (auto simp: save_keys_def split: option.splits node.splits)
  show "stdin (snd (save_keys J ts w)) = stdin w"
    using cb m by (auto simp: save_keys_def split: option.splits node.splits)
qed

lemma save_keys_written:
  assumes "fst (save_keys J ts w) = None"
  shows "files (snd (save_keys J ts w)) keys_file = Some (File (join [LF] (keys w) @ [LF]))"
proof -
  obtain e w1 where cb: "create_backup ts w = (e, w1)" by (cases "create_backup ts w")
  then have m: "keys w1 = keys w"
    using create_backup_memory(1) [of ts w] by simp
  show ?thesis
    using assms cb m
    by (auto simp: save_keys_def save_aliases_def split: option.splits node.splits)
qed

subsection \<open>Saving and loading the key list\<close>

text \<open>
  C2. The claim: saving and then loading is the identity on every list of non-blank key
  lines. Loading strips every line and splits at line breaks, so the round trip is the
  identity exactly on well-formed key lines, which are the lines loading itself
  produces; the statement below is for those and for a save that returns.
\<close>

theorem save_then_load_keys:
  assumes "\<forall>k\<in>set (keys w). key_line k"
    and "fst (save_keys J ts w) = None"
  shows "fst (load_keys (snd (save_keys J ts w))) = None
         \<and> keys (snd (load_keys (snd (save_keys J ts w)))) = keys w"
  using assms save_keys_written [OF assms(2)]
  by (simp add: load_keys_def stripped_lines_join)

theorem save_then_load_keys_witness:
  "fst (load_keys (snd (save_keys example_json ''20240101_100000''
       \<lparr>keys = [''ssh-rsa AAAA1 a@x'', ''ssh-rsa AAAA2 b@x''], aliases = [],
        files = Map.empty(keys_file \<mapsto> File []), stdin = [], stdout = []\<rparr>))) = None
   \<and> keys (snd (load_keys (snd (save_keys example_json ''20240101_100000''
       \<lparr>keys = [''ssh-rsa AAAA1 a@x'', ''ssh-rsa AAAA2 b@x''], aliases = [],
        files = Map.empty(keys_file \<mapsto> File []), stdin = [], stdout = []\<rparr>))))
     = [''ssh-rsa AAAA1 a@x'', ''ssh-rsa AAAA2 b@x'']"
proof -
  let ?w = "\<lparr>keys = [''ssh-rsa AAAA1 a@x'', ''ssh-rsa AAAA2 b@x''], aliases = [],
        files = Map.empty(keys_file \<mapsto> File []), stdin = [], stdout = []\<rparr>"
  have 1: "key_line ''ssh-rsa AAAA1 a@x''" by code_simp
  have 2: "key_line ''ssh-rsa AAAA2 b@x''" by code_simp
  have 3: "fst (save_keys example_json ''20240101_100000'' ?w) = None" by code_simp
  have 4: "\<forall>k\<in>set (keys ?w). key_line k" using 1 2 by simp
  show ?thesis
    using save_then_load_keys [OF 4 3] by simp
qed

theorem save_then_load_strips_counterexample:
  "py_strip '' ssh-rsa AAAA1 a@x'' \<noteq> [] \<and> LF \<notin> set '' ssh-rsa AAAA1 a@x''
   \<and> fst (save_keys example_json ''20240101_100000''
       \<lparr>keys = ['' ssh-rsa AAAA1 a@x''], aliases = [],
        files = Map.empty(keys_file \<mapsto> File []), stdin = [], stdout = []\<rparr>) = None
   \<and> keys (snd (load_keys (snd (save_keys example_json ''20240101_100000''
       \<lparr>keys = ['' ssh-rsa AAAA1 a@x''], aliases = [],
        files = Map.empty(keys_file \<mapsto> File []), stdin = [], stdout = []\<rparr>))))
     = [''ssh-rsa AAAA1 a@x'']
   \<and> keys (snd (load_keys (snd (save_keys example_json ''20240101_100000''
       \<lparr>keys = ['' ssh-rsa AAAA1 a@x''], aliases = [],
        files = Map.empty(keys_file \<mapsto> File []), stdin = [], stdout = []\<rparr>))))
     \<noteq> ['' ssh-rsa AAAA1 a@x'']"
  by code_simp

text \<open>An entry with a line break inside comes back as two entries.\<close>

lemma save_then_load_splits_two_line_entry:
  "keys (snd (load_keys (snd (save_keys example_json ''20240101_100000''
       \<lparr>keys = [''ssh-rsa AAAA1 a@x'' @ [LF] @ ''ssh-rsa AAAA2 b@x''], aliases = [],
        files = Map.empty(keys_file \<mapsto> File []), stdin = [], stdout = []\<rparr>))))
     = [''ssh-rsa AAAA1 a@x'', ''ssh-rsa AAAA2 b@x'']"
  by code_simp

subsection \<open>What deploying touches\<close>

lemma print_fields [simp]:
  "keys (print e w) = keys w" "aliases (print e w) = aliases w"
  "files (print e w) = files w" "stdin (print e w) = stdin w"
  "stdout (print e w) = stdout w @ [e]"
  by (simp_all add: print_def)

lemma prints_fields [simp]:
  "keys (prints es w) = keys w" "aliases (prints es w) = aliases w"
  "files (prints es w) = files w" "stdin (prints es w) = stdin w"
  "stdout (prints es w) = stdout w @ es"
  by (simp_all add: prints_def)

lemma ssh_dir_eq:
  "ssh_dir home = (if home = [] \<or> last home = CHR ''/'' then home @ ''.ssh'' else home @ ''/.ssh'')"
  by (simp add: ssh_dir_def path_join_def)

lemma ssh_dir_last: "ssh_dir home \<noteq> [] \<and> last (ssh_dir home) = CHR ''h''"
  by (simp add: ssh_dir_eq)

lemma auth_keys_file_eq: "auth_keys_file home = ssh_dir home @ ''/authorized_keys''"
  using ssh_dir_last [of home] by (simp add: auth_keys_file_def path_join_def)

lemma seen_from_last: "p \<noteq> [] \<Longrightarrow> seen_from cwd p \<noteq> [] \<and> last (seen_from cwd p) = last p"
  by (simp add: seen_from_def Let_def last_drop)

text \<open>\<open>seen_from cwd\<close> undoes \<open>path_join cwd\<close> on a relative path.\<close>

lemma seen_from_path_join:
  assumes "cwd \<noteq> []" and "p \<noteq> []" and "hd p \<noteq> CHR ''/''"
  shows "seen_from cwd (path_join cwd p) = p"
  using assms by (simp add: seen_from_def path_join_def Let_def)

lemma deploy_dir_last: "deploy_dir os home \<noteq> [] \<and> last (deploy_dir os home) = CHR ''h''"
  using seen_from_last [of "ssh_dir home" "working_directory os"] ssh_dir_last [of home]
  by (simp add: deploy_dir_def)

lemma deploy_target_last:
  "deploy_target os home \<noteq> [] \<and> last (deploy_target os home) = CHR ''s''"
  using seen_from_last [of "auth_keys_file home" "working_directory os"]
  by (simp add: deploy_target_def auth_keys_file_eq)

text \<open>With no working directory given, both are named by the paths the code computes.\<close>

lemma deploy_names_unresolved:
  "working_directory os = [] \<Longrightarrow>
     deploy_dir os home = ssh_dir home \<and> deploy_target os home = auth_keys_file home"
  by (simp add: deploy_dir_def deploy_target_def seen_from_def)

lemma deploy_paths_neq [simp]:
  "deploy_dir os home \<noteq> keys_file" "deploy_dir os home \<noteq> aliases_file"
  "deploy_target os home \<noteq> aliases_file"
  "deploy_target os home \<noteq> deploy_dir os home" "deploy_dir os home \<noteq> deploy_target os home"
  "keys_file \<noteq> deploy_dir os home" "aliases_file \<noteq> deploy_dir os home"
  "aliases_file \<noteq> deploy_target os home"
proof -
  show 1: "deploy_dir os home \<noteq> keys_file"
    using deploy_dir_last [of os home] by (auto simp: keys_file_def)
  show 2: "deploy_dir os home \<noteq> aliases_file"
    using deploy_dir_last [of os home] by (auto simp: aliases_file_def)
  show 3: "deploy_target os home \<noteq> aliases_file"
    using deploy_target_last [of os home] by (auto simp: aliases_file_def)
  show 4: "deploy_target os home \<noteq> deploy_dir os home"
    using deploy_target_last [of os home] deploy_dir_last [of os home] by auto
  show "deploy_dir os home \<noteq> deploy_target os home"
    using 4 by simp
  show "keys_file \<noteq> deploy_dir os home"
    using 1 by simp
  show "aliases_file \<noteq> deploy_dir os home"
    using 2 by simp
  show "aliases_file \<noteq> deploy_target os home"
    using 3 by simp
qed

text \<open>
  The target is the key-list file of the inventory exactly when the program runs in
  \<^verbatim>\<open>~/.ssh\<close>.
\<close>

lemma deploy_target_keys_file:
  "deploy_target os home = keys_file
   \<longleftrightarrow> working_directory os = ssh_dir home \<or> working_directory os = ssh_dir home @ ''/''"
proof
  let ?cwd = "working_directory os"
  let ?p = "ssh_dir home @ ''/authorized_keys''"
  define below where "below = (if ?cwd \<noteq> [] \<and> last ?cwd = CHR ''/'' then ?cwd else ?cwd @ ''/'')"
  assume eq: "deploy_target os home = keys_file"
  have sf: "seen_from ?cwd ?p =
              (if ?cwd \<noteq> [] \<and> length below < length ?p \<and> take (length below) ?p = below
               then drop (length below) ?p else ?p)"
    by (simp only: seen_from_def Let_def below_def)
  have "length ?p > 15"
    using ssh_dir_last [of home] by (cases "ssh_dir home") simp_all
  then have "?p \<noteq> ''authorized_keys''"
    by auto
  moreover have "seen_from ?cwd ?p = ''authorized_keys''"
    using eq by (simp only: deploy_target_def auth_keys_file_eq keys_file_def)
  ultimately have nonempty: "?cwd \<noteq> []"
    and taken: "take (length below) ?p = below"
    and dropped: "drop (length below) ?p = ''authorized_keys''"
    unfolding sf by (auto split: if_splits)
  have "take (length below) ?p @ drop (length below) ?p = ?p"
    by (rule append_take_drop_id)
  then have "below @ ''authorized_keys'' = (ssh_dir home @ ''/'') @ ''authorized_keys''"
    unfolding taken dropped by simp
  then have below: "below = ssh_dir home @ ''/''"
    by (simp only: append_same_eq)
  show "?cwd = ssh_dir home \<or> ?cwd = ssh_dir home @ ''/''"
    using below nonempty by (auto simp: below_def split: if_splits)
next
  assume "working_directory os = ssh_dir home \<or> working_directory os = ssh_dir home @ ''/''"
  then show "deploy_target os home = keys_file"
    using ssh_dir_last [of home]
    by (auto simp: deploy_target_def auth_keys_file_eq seen_from_def Let_def keys_file_def)
qed

lemma write_and_verify_memory [simp]:
  "keys (snd (write_and_verify target loc os ks w)) = keys w"
  "aliases (snd (write_and_verify target loc os ks w)) = aliases w"
  "stdin (snd (write_and_verify target loc os ks w)) = stdin w"
  by (simp_all add: write_and_verify_def Let_def)


lemma deploy_selection_memory [simp]:
  "keys (snd (deploy_selection home os sel w)) = keys w"
  "aliases (snd (deploy_selection home os sel w)) = aliases w"
  "stdin (snd (deploy_selection home os sel w)) = stdin w"
  by (simp_all add: deploy_selection_def Let_def split: option.splits)



text \<open>Before the prompt is answered \<^verbatim>\<open>deploy_keys\<close> only prints and reads.\<close>

lemma deploy_keys_cases:
  "(keys (snd (deploy_keys home os w)) = keys w
      \<and> aliases (snd (deploy_keys home os w)) = aliases w
      \<and> files (snd (deploy_keys home os w)) = files w)
   \<or> (\<exists>sel w'. keys w' = keys w \<and> aliases w' = aliases w \<and> files w' = files w
          \<and> deploy_keys home os w = deploy_selection home os sel w')"
proof (cases "keys w = []")
  case True
  then show ?thesis by (simp add: deploy_keys_def)
next
  case False
  obtain shown r where sk: "show_keys (aliases w) 1 (keys w) = (shown, r)"
    by (cases "show_keys (aliases w) 1 (keys w)")
  show ?thesis
  proof (cases r)
    case (Some e)
    with False sk show ?thesis by (simp add: deploy_keys_def)
  next
    case None
    show ?thesis
    proof (cases "stdin w")
      case Nil
      with False sk None show ?thesis by (simp add: deploy_keys_def)
    next
      case (Cons line rest)
      show ?thesis
      proof (cases "py_strip line = []")
        case True
        with False sk None Cons show ?thesis by (simp add: deploy_keys_def)
      next
        case nonempty: False
        let ?w' = "(prints (Available_keys_header # shown) w)\<lparr>stdin := rest\<rparr>"
        have "deploy_keys home os w = deploy_selection home os (py_strip line) ?w'"
          using False sk None Cons nonempty by (simp add: deploy_keys_def)
        moreover have "keys ?w' = keys w \<and> aliases ?w' = aliases w \<and> files ?w' = files w"
          by simp
        ultimately show ?thesis by blast
      qed
    qed
  qed
qed

lemma deploy_keys_keys: "keys (snd (deploy_keys home os w)) = keys w"
  using deploy_keys_cases [of home os w] by auto

lemma deploy_keys_aliases: "aliases (snd (deploy_keys home os w)) = aliases w"
  using deploy_keys_cases [of home os w] by auto






text \<open>
  A state that the program reaches by itself: a key captured from a file of two lines is
  one entry in memory and two lines of the key-list file that \<^verbatim>\<open>save_keys\<close> wrote. Run in
  \<^verbatim>\<open>/home/u/.ssh\<close>, \<^verbatim>\<open>deploy_keys\<close> does not find the entry among the lines and appends it to
  the key-list file.
\<close>

lemma deploy_in_ssh_dir_after_two_line_capture:
  "files (snd (deploy_keys ''/home/u'' in_ssh_dir
            \<lparr>keys = [''ssh-rsa AAAA1 a@x'' @ [LF] @ ''ssh-rsa AAAA2 b@x''], aliases = [],
             files = Map.empty(keys_file \<mapsto>
                       File (''ssh-rsa AAAA1 a@x'' @ [LF] @ ''ssh-rsa AAAA2 b@x'' @ [LF])),
             stdin = [''all''], stdout = []\<rparr>))
      keys_file
   = Some (File (''ssh-rsa AAAA1 a@x'' @ [LF] @ ''ssh-rsa AAAA2 b@x'' @ [LF]
                 @ ''ssh-rsa AAAA1 a@x'' @ [LF] @ ''ssh-rsa AAAA2 b@x'' @ [LF]))"
  by code_simp

subsection \<open>Deploying twice\<close>

lemma count_list_distinct:
  "distinct xs \<Longrightarrow> count_list xs x = (if x \<in> set xs then 1 else 0)"
  by (induction xs) auto

lemma deploy_keys_prompt:
  assumes "keys w \<noteq> []"
    and "show_keys (aliases w) 1 (keys w) = (shown, None)"
    and "stdin w = line # rest"
    and "py_strip line \<noteq> []"
  shows "deploy_keys home os w =
           deploy_selection home os (py_strip line)
             ((prints (Available_keys_header # shown) w)\<lparr>stdin := rest\<rparr>)"
  using assms by (simp add: deploy_keys_def)

lemma existing_keys_normal:
  "\<not> read_fails os \<Longrightarrow> n \<noteq> Some Dir \<Longrightarrow>
     existing_keys os n = Some (set (stripped_lines (file_text n)))"
  by (auto simp: existing_keys_def file_text_def stripped_lines_def file_lines_def
      split: option.splits node.splits)

lemma deploy_selection_normal:
  assumes "\<not> makedirs_fails os" and "\<not> read_fails os"
    and "\<not> is_file (files w (deploy_dir os home))"
    and "files w (deploy_target os home) \<noteq> Some Dir"
    and "selected_keys sel (keys w) = Some selected"
  shows "deploy_selection home os sel w =
           (let w1 = w\<lparr>files := (files w)(deploy_dir os home \<mapsto> Dir)\<rparr>;
                keys_to_add =
                  filter (\<lambda>key. key \<notin> set (stripped_lines (file_text (files w (deploy_target os home)))))
                    selected
            in if keys_to_add = [] then (None, print All_already_deployed w1)
               else write_and_verify (deploy_target os home) (auth_keys_file home) os keys_to_add w1)"
  using assms
  by (simp add: deploy_selection_def Let_def existing_keys_normal)

lemma write_and_verify_normal:
  assumes "\<not> append_fails os" and "\<not> verify_fails os"
  shows "fst (write_and_verify target loc os ks w) = None"
    and "files (snd (write_and_verify target loc os ks w)) =
           (files w)(target \<mapsto> File (file_text (files w target) @ concat (map (\<lambda>key. key @ [LF]) ks)))"
    and "stdout (snd (write_and_verify target loc os ks w)) \<noteq> []"
  using assms by (simp_all add: write_and_verify_def Let_def)

text \<open>The first deployment, when nothing is refused.\<close>

lemma deploy_selection_first:
  assumes "\<not> makedirs_fails os" and "\<not> read_fails os"
    and "\<not> append_fails os" and "\<not> verify_fails os"
    and "\<not> is_file (files w (deploy_dir os home))"
    and "files w (deploy_target os home) \<noteq> Some Dir"
    and "selected_keys sel (keys w) = Some selected"
    and "\<forall>k\<in>set selected. key_line k"
    and "file_text (files w (deploy_target os home)) = []
         \<or> last (file_text (files w (deploy_target os home))) = LF"
  defines "c0 \<equiv> file_text (files w (deploy_target os home))"
  defines "w1 \<equiv> snd (deploy_selection home os sel w)"
  shows "fst (deploy_selection home os sel w) = None"
    and "files w1 (deploy_dir os home) = Some Dir"
    and "files w1 (deploy_target os home) \<noteq> Some Dir"
    and "stripped_lines (file_text (files w1 (deploy_target os home)))
           = stripped_lines c0 @ filter (\<lambda>key. key \<notin> set (stripped_lines c0)) selected"
proof -
  let ?T = "deploy_target os home"
  let ?kta = "filter (\<lambda>key. key \<notin> set (stripped_lines c0)) selected"
  let ?wd = "w\<lparr>files := (files w)(deploy_dir os home \<mapsto> Dir)\<rparr>"
  have ds: "deploy_selection home os sel w =
          (if ?kta = [] then (None, print All_already_deployed ?wd)
           else write_and_verify ?T (auth_keys_file home) os ?kta ?wd)"
    using deploy_selection_normal [OF assms(1,2,5,6,7)] by (simp add: Let_def c0_def)
  have kl: "\<forall>k\<in>set ?kta. key_line k" using assms(8) by simp
  have T: "files ?wd ?T = files w ?T" by simp
  show "fst (deploy_selection home os sel w) = None"
    using ds write_and_verify_normal(1) [OF assms(3,4)] by simp
  show "files w1 (deploy_dir os home) = Some Dir"
    unfolding w1_def using ds write_and_verify_normal(2) [OF assms(3,4)] by simp
  show "files w1 ?T \<noteq> Some Dir"
    unfolding w1_def using ds write_and_verify_normal(2) [OF assms(3,4)] assms(6) by simp
  show "stripped_lines (file_text (files w1 ?T)) = stripped_lines c0 @ ?kta"
  proof (cases "?kta = []")
    case True
    then show ?thesis unfolding w1_def using ds by (simp add: c0_def)
  next
    case False
    then have "file_text (files w1 ?T) = c0 @ concat (map (\<lambda>key. key @ [LF]) ?kta)"
      unfolding w1_def using ds write_and_verify_normal(2) [OF assms(3,4)]
      by (simp add: c0_def file_text_def)
    then show ?thesis
      using stripped_lines_append_keys [of c0 ?kta] assms(9) kl by (simp add: c0_def)
  qed
qed

text \<open>A deployment of keys that the target already holds writes nothing.\<close>

lemma deploy_selection_again:
  assumes "\<not> makedirs_fails os" and "\<not> read_fails os"
    and "files w (deploy_dir os home) = Some Dir"
    and "files w (deploy_target os home) \<noteq> Some Dir"
    and "selected_keys sel (keys w) = Some selected"
    and "set selected \<subseteq> set (stripped_lines (file_text (files w (deploy_target os home))))"
  shows "deploy_selection home os sel w = (None, print All_already_deployed w)"
proof -
  have "filter (\<lambda>key. key \<notin> set (stripped_lines (file_text (files w (deploy_target os home))))) selected = []"
    using assms(6) by (auto simp: filter_empty_conv)
  moreover have "\<not> is_file (files w (deploy_dir os home))"
    using assms(3) by (simp add: is_file_def)
  moreover have "w\<lparr>files := (files w)(deploy_dir os home \<mapsto> Dir)\<rparr> = w"
    using assms(3) by (simp add: fun_upd_idem)
  ultimately show ?thesis
    using deploy_selection_normal [OF assms(1,2) _ assms(4,5)] by (simp add: Let_def)
qed

lemma count_after_deploy:
  assumes "distinct selected" and "k \<in> set selected" and "count_list old k \<le> 1"
  shows "count_list (old @ filter (\<lambda>key. key \<notin> set old) selected) k = 1"
proof (cases "k \<in> set old")
  case True
  then have "count_list old k \<noteq> 0" by (simp add: count_list_0_iff)
  with assms(3) have "count_list old k = 1" by simp
  moreover from True have "count_list (filter (\<lambda>key. key \<notin> set old) selected) k = 0"
    by (simp add: count_list_0_iff)
  ultimately show ?thesis by simp
next
  case False
  then have "count_list old k = 0" by (simp add: count_list_0_iff)
  moreover have "count_list (filter (\<lambda>key. key \<notin> set old) selected) k = 1"
    using assms(1,2) False by (simp add: count_list_distinct)
  ultimately show ?thesis by simp
qed

text \<open>
  C1. The claim: for every inventory and selection, after two runs of deploy with the
  same selection the target holds each selected key exactly once, and the second run
  adds nothing. Deploy only appends: a target that already held a selected key twice
  still does. What holds: when the operating system refuses nothing, the
  listing does not raise, the selected lines are pairwise distinct well-formed key lines
  and the target is absent or ends with a line break and holds each selected key at
  most once, both runs return, the second run writes nothing and reports that all
  selected keys are already deployed, and the target then holds each selected key
  exactly once.
\<close>

theorem deploy_twice:
  assumes keys: "keys w \<noteq> []"
    and listing: "snd (show_keys (aliases w) 1 (keys w)) = None"
    and typed: "stdin w = line # line # rest"
    and nonempty: "py_strip line \<noteq> []"
    and selected: "selected_keys (py_strip line) (keys w) = Some selected"
    and key_lines: "\<forall>k\<in>set selected. key_line k"
    and once: "distinct selected"
    and os: "\<not> makedirs_fails os" "\<not> read_fails os" "\<not> append_fails os" "\<not> verify_fails os"
    and dir: "\<not> is_file (files w (deploy_dir os home))"
    and target: "files w (deploy_target os home) \<noteq> Some Dir"
    and complete: "file_text (files w (deploy_target os home)) = []
                   \<or> last (file_text (files w (deploy_target os home))) = LF"
    and before: "\<forall>k\<in>set selected.
                   count_list (stripped_lines (file_text (files w (deploy_target os home)))) k \<le> 1"
  shows "fst (deploy_keys home os w) = None
         \<and> fst (deploy_keys home os (snd (deploy_keys home os w))) = None
         \<and> files (snd (deploy_keys home os (snd (deploy_keys home os w))))
             = files (snd (deploy_keys home os w))
         \<and> stdout (snd (deploy_keys home os (snd (deploy_keys home os w)))) \<noteq> []
         \<and> last (stdout (snd (deploy_keys home os (snd (deploy_keys home os w)))))
             = All_already_deployed
         \<and> (\<forall>k\<in>set selected.
               count_list
                 (stripped_lines
                    (file_text
                       (files (snd (deploy_keys home os (snd (deploy_keys home os w))))
                          (deploy_target os home)))) k = 1)"
proof -
  let ?T = "deploy_target os home"
  let ?sel = "py_strip line"
  let ?old = "stripped_lines (file_text (files w ?T))"
  let ?kta = "filter (\<lambda>key. key \<notin> set ?old) selected"
  obtain shown where sk: "show_keys (aliases w) 1 (keys w) = (shown, None)"
    using listing by (cases "show_keys (aliases w) 1 (keys w)") auto
  let ?wa = "(prints (Available_keys_header # shown) w)\<lparr>stdin := line # rest\<rparr>"
  have d1: "deploy_keys home os w = deploy_selection home os ?sel ?wa"
    using deploy_keys_prompt [OF keys sk typed nonempty] .
  let ?w1 = "snd (deploy_keys home os w)"
  have first:
    "fst (deploy_selection home os ?sel ?wa) = None"
    "files (snd (deploy_selection home os ?sel ?wa)) (deploy_dir os home) = Some Dir"
    "files (snd (deploy_selection home os ?sel ?wa)) ?T \<noteq> Some Dir"
    "stripped_lines (file_text (files (snd (deploy_selection home os ?sel ?wa)) ?T)) = ?old @ ?kta"
    using deploy_selection_first [of os ?wa home ?sel selected]
      os dir target selected key_lines complete by simp_all
  have mem1: "keys ?w1 = keys w" "aliases ?w1 = aliases w" "stdin ?w1 = line # rest"
    by (simp_all add: d1)
  let ?wb = "(prints (Available_keys_header # shown) ?w1)\<lparr>stdin := rest\<rparr>"
  have d2: "deploy_keys home os ?w1 = deploy_selection home os ?sel ?wb"
    using deploy_keys_prompt [of ?w1 shown line rest home os] keys sk nonempty mem1 by simp
  have held: "set selected \<subseteq> set (stripped_lines (file_text (files ?wb ?T)))"
    using first(4) by (auto simp: d1)
  have "deploy_selection home os ?sel ?wb = (None, print All_already_deployed ?wb)"
    using deploy_selection_again [of os ?wb home ?sel selected]
      os(1,2) first(2,3) selected held mem1 by (simp add: d1)
  with d2 have second: "deploy_keys home os ?w1 = (None, print All_already_deployed ?wb)"
    by simp
  have after1: "stripped_lines (file_text (files ?w1 ?T)) = ?old @ ?kta"
    using first(4) by (simp add: d1)
  have same: "files (snd (deploy_keys home os ?w1)) = files ?w1"
    by (simp add: second)
  have "\<forall>k\<in>set selected. count_list (?old @ ?kta) k = 1"
    using count_after_deploy [OF once] before by blast
  then have "\<forall>k\<in>set selected.
      count_list (stripped_lines (file_text (files (snd (deploy_keys home os ?w1)) ?T))) k = 1"
    by (simp only: same after1)
  moreover have "fst (deploy_keys home os w) = None"
    using first(1) by (simp add: d1)
  moreover note same
  moreover have "stdout (snd (deploy_keys home os ?w1)) \<noteq> []
      \<and> last (stdout (snd (deploy_keys home os ?w1))) = All_already_deployed"
    by (simp add: second)
  moreover have "fst (deploy_keys home os ?w1) = None"
    by (simp add: second)
  ultimately show ?thesis
    by blast
qed

theorem deploy_twice_witness:
  "fst (deploy_keys ''/home/u'' no_refusals
          (snd (deploy_keys ''/home/u'' no_refusals
                  (two_keys_world (''ssh-rsa AAAAB3 bob@desk'' @ [LF]) [''1,2'', ''1,2''])))) = None
   \<and> last (stdout (snd (deploy_keys ''/home/u'' no_refusals
          (snd (deploy_keys ''/home/u'' no_refusals
                  (two_keys_world (''ssh-rsa AAAAB3 bob@desk'' @ [LF]) [''1,2'', ''1,2''])))))) = All_already_deployed
   \<and> count_list (stripped_lines (file_text (files (snd (deploy_keys ''/home/u'' no_refusals
          (snd (deploy_keys ''/home/u'' no_refusals
                  (two_keys_world (''ssh-rsa AAAAB3 bob@desk'' @ [LF]) [''1,2'', ''1,2'']))))) (auth_keys_file ''/home/u''))))
        ''ssh-ed25519 AAAAC3 alice@laptop'' = 1
   \<and> count_list (stripped_lines (file_text (files (snd (deploy_keys ''/home/u'' no_refusals
          (snd (deploy_keys ''/home/u'' no_refusals
                  (two_keys_world (''ssh-rsa AAAAB3 bob@desk'' @ [LF]) [''1,2'', ''1,2'']))))) (auth_keys_file ''/home/u''))))
        ''ssh-rsa AAAAB3 bob@desk'' = 1"
proof -
  let ?w = "two_keys_world (''ssh-rsa AAAAB3 bob@desk'' @ [LF]) [''1,2'', ''1,2'']"
  let ?sel = "[''ssh-ed25519 AAAAC3 alice@laptop'', ''ssh-rsa AAAAB3 bob@desk'']"
  have 1: "keys ?w \<noteq> []" by code_simp
  have 2: "snd (show_keys (aliases ?w) 1 (keys ?w)) = None" by code_simp
  have 3: "stdin ?w = ''1,2'' # ''1,2'' # []" by code_simp
  have 4: "py_strip ''1,2'' \<noteq> []" by code_simp
  have 5: "selected_keys (py_strip ''1,2'') (keys ?w) = Some ?sel" by code_simp
  have 6: "\<forall>k\<in>set ?sel. key_line k" by code_simp
  have 7: "distinct ?sel" by code_simp
  have 8: "\<not> makedirs_fails no_refusals" "\<not> read_fails no_refusals"
    "\<not> append_fails no_refusals" "\<not> verify_fails no_refusals" by code_simp+
  have 9: "\<not> is_file (files ?w (deploy_dir no_refusals ''/home/u''))" by code_simp
  have 10: "files ?w (deploy_target no_refusals ''/home/u'') \<noteq> Some Dir" by code_simp
  have 11: "file_text (files ?w (deploy_target no_refusals ''/home/u'')) = []
       \<or> last (file_text (files ?w (deploy_target no_refusals ''/home/u''))) = LF" by code_simp
  have 12: "\<forall>k\<in>set ?sel.
       count_list (stripped_lines (file_text (files ?w (deploy_target no_refusals ''/home/u'')))) k \<le> 1"
    by code_simp
  have 13: "''ssh-ed25519 AAAAC3 alice@laptop'' \<in> set ?sel" "''ssh-rsa AAAAB3 bob@desk'' \<in> set ?sel"
    by simp_all
  have 14: "deploy_target no_refusals ''/home/u'' = auth_keys_file ''/home/u''" by code_simp
  show ?thesis
    using deploy_twice [OF 1 2 3 4 5 6 7 8 9 10 11 12] 13 unfolding 14 by blast
qed

theorem deploy_twice_keeps_duplicates_counterexample:
  "fst (deploy_keys ''/home/u'' no_refusals
          (two_keys_world (''ssh-rsa AAAAB3 bob@desk'' @ [LF] @ ''ssh-rsa AAAAB3 bob@desk'' @ [LF])
             [''2'', ''2''])) = None
   \<and> fst (deploy_keys ''/home/u'' no_refusals
          (snd (deploy_keys ''/home/u'' no_refusals
             (two_keys_world (''ssh-rsa AAAAB3 bob@desk'' @ [LF] @ ''ssh-rsa AAAAB3 bob@desk'' @ [LF])
                [''2'', ''2''])))) = None
   \<and> count_list (stripped_lines (file_text (files (snd (deploy_keys ''/home/u'' no_refusals
          (snd (deploy_keys ''/home/u'' no_refusals
             (two_keys_world (''ssh-rsa AAAAB3 bob@desk'' @ [LF] @ ''ssh-rsa AAAAB3 bob@desk'' @ [LF])
                [''2'', ''2'']))))) (auth_keys_file ''/home/u''))))
        ''ssh-rsa AAAAB3 bob@desk'' = 2"
  by code_simp

text \<open>An index typed twice is written twice by the first run.\<close>

lemma deploy_repeated_index_writes_twice:
  "files (snd (deploy_keys ''/home/u'' no_refusals
          (snd (deploy_keys ''/home/u'' no_refusals (two_keys_world [] [''1,1'', ''1,1'']))))) (auth_keys_file ''/home/u'')
   = Some (File (''ssh-ed25519 AAAAC3 alice@laptop'' @ [LF] @ ''ssh-ed25519 AAAAC3 alice@laptop'' @ [LF]))"
  by code_simp

text \<open>
  A target whose last line has no line break: the first run appends to that line, so the
  second run does not find the key and appends it again.
\<close>

lemma deploy_after_incomplete_line_appends_twice:
  "files (snd (deploy_keys ''/home/u'' no_refusals (two_keys_world ''ssh-rsa AAAAB3 bob@desk'' [''1'', ''1''])))
      (auth_keys_file ''/home/u'')
   = Some (File (''ssh-rsa AAAAB3 bob@deskssh-ed25519 AAAAC3 alice@laptop'' @ [LF]))
   \<and> files (snd (deploy_keys ''/home/u'' no_refusals
          (snd (deploy_keys ''/home/u'' no_refusals (two_keys_world ''ssh-rsa AAAAB3 bob@desk'' [''1'', ''1''])))))
      (auth_keys_file ''/home/u'')
   = Some (File (''ssh-rsa AAAAB3 bob@deskssh-ed25519 AAAAC3 alice@laptop'' @ [LF]
                 @ ''ssh-ed25519 AAAAC3 alice@laptop'' @ [LF]))"
  by code_simp

subsection \<open>Invalid selections\<close>

lemma selected_keys_invalid:
  "py_lower sel \<noteq> ''all'' \<Longrightarrow> parse_indices sel = None \<Longrightarrow> selected_keys sel ks = None"
  by (simp add: selected_keys_def)

lemma capture_keys_invalid:
  assumes "system_keys \<noteq> []"
    and "stdin w = line # rest" and "py_strip line \<noteq> []"
    and "py_lower (py_strip line) \<noteq> ''all''" and "parse_indices (py_strip line) = None"
  shows "capture_keys J now ts system_keys w =
           (None, print Invalid_selection
                    ((prints (Found_keys_header #
                        map (\<lambda>(i, key). Numbered i (get_key_name key))
                          (List.enumerate 1 system_keys)) w)\<lparr>stdin := rest\<rparr>))"
  using assms by (simp add: capture_keys_def Let_def)

lemma delete_keys_invalid:
  assumes "keys w \<noteq> []" and "show_keys (aliases w) 1 (keys w) = (shown, None)"
    and "stdin w = line # rest" and "py_strip line \<noteq> []"
    and "py_lower (py_strip line) \<noteq> ''all''" and "parse_indices (py_strip line) = None"
  shows "delete_keys J ts w =
           (None, print Invalid_selection
                    ((prints (Available_keys_header # shown) w)\<lparr>stdin := rest\<rparr>))"
  using assms by (simp add: delete_keys_def Let_def)

lemma deploy_keys_invalid:
  assumes "keys w \<noteq> []" and "show_keys (aliases w) 1 (keys w) = (shown, None)"
    and "stdin w = line # rest" and "py_strip line \<noteq> []"
    and "py_lower (py_strip line) \<noteq> ''all''" and "parse_indices (py_strip line) = None"
    and "\<not> makedirs_fails os" and "\<not> is_file (files w (deploy_dir os home))"
  shows "deploy_keys home os w =
           (None, print Invalid_selection
                    ((prints (Available_keys_header # shown) w)
                       \<lparr>stdin := rest, files := (files w)(deploy_dir os home \<mapsto> Dir)\<rparr>))"
  using assms deploy_keys_prompt [OF assms(1,2,3,4), of home os]
  by (simp add: deploy_selection_def selected_keys_invalid Let_def)

text \<open>
  C8. The claim: a selection that is not numeric or holds an index out of range prints
  an error and changes nothing. An index out of range is no error in the code: it is
  skipped without a message and the indices in range typed with it are carried out.
  The statement below is for the selection that \<^verbatim>\<open>int\<close> rejects: capture, delete and
  deploy then print the error as their last line and return with the key list, the
  metadata and the files as they were (deploy has made its directory by then).
\<close>

theorem invalid_selection_aborts:
  assumes "stdin w = line # rest" and "py_strip line \<noteq> []"
    and "py_lower (py_strip line) \<noteq> ''all''" and "parse_indices (py_strip line) = None"
  shows "(system_keys \<noteq> [] \<longrightarrow>
            fst (capture_keys J now ts system_keys w) = None
            \<and> keys (snd (capture_keys J now ts system_keys w)) = keys w
            \<and> aliases (snd (capture_keys J now ts system_keys w)) = aliases w
            \<and> files (snd (capture_keys J now ts system_keys w)) = files w
            \<and> stdin (snd (capture_keys J now ts system_keys w)) = rest
            \<and> last (stdout (snd (capture_keys J now ts system_keys w))) = Invalid_selection)
         \<and> (keys w \<noteq> [] \<and> snd (show_keys (aliases w) 1 (keys w)) = None \<longrightarrow>
            fst (delete_keys J ts w) = None
            \<and> keys (snd (delete_keys J ts w)) = keys w
            \<and> aliases (snd (delete_keys J ts w)) = aliases w
            \<and> files (snd (delete_keys J ts w)) = files w
            \<and> stdin (snd (delete_keys J ts w)) = rest
            \<and> last (stdout (snd (delete_keys J ts w))) = Invalid_selection)
         \<and> (keys w \<noteq> [] \<and> snd (show_keys (aliases w) 1 (keys w)) = None
             \<and> \<not> makedirs_fails os \<and> \<not> is_file (files w (deploy_dir os home)) \<longrightarrow>
            fst (deploy_keys home os w) = None
            \<and> keys (snd (deploy_keys home os w)) = keys w
            \<and> aliases (snd (deploy_keys home os w)) = aliases w
            \<and> files (snd (deploy_keys home os w)) = (files w)(deploy_dir os home \<mapsto> Dir)
            \<and> stdin (snd (deploy_keys home os w)) = rest
            \<and> last (stdout (snd (deploy_keys home os w))) = Invalid_selection)"
proof (intro conjI impI)
  assume "system_keys \<noteq> []"
  note c = capture_keys_invalid [OF this assms, of J now ts]
  show "fst (capture_keys J now ts system_keys w) = None"
    "keys (snd (capture_keys J now ts system_keys w)) = keys w"
    "aliases (snd (capture_keys J now ts system_keys w)) = aliases w"
    "files (snd (capture_keys J now ts system_keys w)) = files w"
    "stdin (snd (capture_keys J now ts system_keys w)) = rest"
    "last (stdout (snd (capture_keys J now ts system_keys w))) = Invalid_selection"
    by (simp_all add: c)
next
  assume a: "keys w \<noteq> [] \<and> snd (show_keys (aliases w) 1 (keys w)) = None"
  then obtain shown where sk: "show_keys (aliases w) 1 (keys w) = (shown, None)"
    by (cases "show_keys (aliases w) 1 (keys w)") auto
  from a have k: "keys w \<noteq> []" by simp
  note d = delete_keys_invalid [OF k sk assms, of J ts]
  show "fst (delete_keys J ts w) = None"
    "keys (snd (delete_keys J ts w)) = keys w"
    "aliases (snd (delete_keys J ts w)) = aliases w"
    "files (snd (delete_keys J ts w)) = files w"
    "stdin (snd (delete_keys J ts w)) = rest"
    "last (stdout (snd (delete_keys J ts w))) = Invalid_selection"
    by (simp_all add: d)
next
  assume a: "keys w \<noteq> [] \<and> snd (show_keys (aliases w) 1 (keys w)) = None
             \<and> \<not> makedirs_fails os \<and> \<not> is_file (files w (deploy_dir os home))"
  then obtain shown where sk: "show_keys (aliases w) 1 (keys w) = (shown, None)"
    by (cases "show_keys (aliases w) 1 (keys w)") auto
  from a have k: "keys w \<noteq> []" and m: "\<not> makedirs_fails os"
    and f: "\<not> is_file (files w (deploy_dir os home))" by simp_all
  note d = deploy_keys_invalid [OF k sk assms m f]
  show "fst (deploy_keys home os w) = None"
    "keys (snd (deploy_keys home os w)) = keys w"
    "aliases (snd (deploy_keys home os w)) = aliases w"
    "files (snd (deploy_keys home os w)) = (files w)(deploy_dir os home \<mapsto> Dir)"
    "stdin (snd (deploy_keys home os w)) = rest"
    "last (stdout (snd (deploy_keys home os w))) = Invalid_selection"
    by (simp_all add: d)
qed

theorem invalid_selection_aborts_witness:
  "fst (capture_keys example_json ''2024-01-01 10:00:00'' ''20240101_100000''
          [''ssh-rsa AAAAB3 carol@host''] (two_keys_world [] [''1,x''])) = None
   \<and> keys (snd (capture_keys example_json ''2024-01-01 10:00:00'' ''20240101_100000''
          [''ssh-rsa AAAAB3 carol@host''] (two_keys_world [] [''1,x''])))
       = keys (two_keys_world [] [''1,x''])
   \<and> last (stdout (snd (capture_keys example_json ''2024-01-01 10:00:00'' ''20240101_100000''
          [''ssh-rsa AAAAB3 carol@host''] (two_keys_world [] [''1,x''])))) = Invalid_selection
   \<and> fst (delete_keys example_json ''20240101_100000'' (two_keys_world [] [''1,x''])) = None
   \<and> keys (snd (delete_keys example_json ''20240101_100000'' (two_keys_world [] [''1,x''])))
       = keys (two_keys_world [] [''1,x''])
   \<and> last (stdout (snd (delete_keys example_json ''20240101_100000'' (two_keys_world [] [''1,x''])))) = Invalid_selection
   \<and> fst (deploy_keys ''/home/u'' no_refusals (two_keys_world [] [''1,x''])) = None
   \<and> keys (snd (deploy_keys ''/home/u'' no_refusals (two_keys_world [] [''1,x''])))
       = keys (two_keys_world [] [''1,x''])
   \<and> last (stdout (snd (deploy_keys ''/home/u'' no_refusals (two_keys_world [] [''1,x''])))) = Invalid_selection"
proof -
  let ?w = "two_keys_world [] [''1,x'']"
  have 1: "stdin ?w = ''1,x'' # []" by code_simp
  have 2: "py_strip ''1,x'' \<noteq> []" by code_simp
  have 3: "py_lower (py_strip ''1,x'') \<noteq> ''all''" by code_simp
  have 4: "parse_indices (py_strip ''1,x'') = None" by code_simp
  have 5: "[''ssh-rsa AAAAB3 carol@host''] \<noteq> []" by simp
  have 6: "keys ?w \<noteq> [] \<and> snd (show_keys (aliases ?w) 1 (keys ?w)) = None" by code_simp
  have 7: "\<not> makedirs_fails no_refusals \<and> \<not> is_file (files ?w (deploy_dir no_refusals ''/home/u''))"
    by code_simp
  show ?thesis
    using invalid_selection_aborts [OF 1 2 3 4, of "[''ssh-rsa AAAAB3 carol@host'']"
        example_json "''2024-01-01 10:00:00''" "''20240101_100000''" no_refusals "''/home/u''"]
      5 6 7
    by blast
qed

theorem out_of_range_index_is_skipped_counterexample:
  "parse_indices ''1,5'' = Some [0, 4]
   \<and> length (keys ((two_keys_world [] [''1,5'', ''yes'', ''n''])
                      \<lparr>files := Map.empty(keys_file \<mapsto> File [])\<rparr>)) = 2
   \<and> fst (delete_keys example_json ''20240101_100000''
            ((two_keys_world [] [''1,5'', ''yes'', ''n''])
               \<lparr>files := Map.empty(keys_file \<mapsto> File [])\<rparr>)) = None
   \<and> keys (snd (delete_keys example_json ''20240101_100000''
            ((two_keys_world [] [''1,5'', ''yes'', ''n''])
               \<lparr>files := Map.empty(keys_file \<mapsto> File [])\<rparr>)))
       = [''ssh-rsa AAAAB3 bob@desk'']
   \<and> files (snd (delete_keys example_json ''20240101_100000''
            ((two_keys_world [] [''1,5'', ''yes'', ''n''])
               \<lparr>files := Map.empty(keys_file \<mapsto> File [])\<rparr>))) keys_file
       = Some (File (''ssh-rsa AAAAB3 bob@desk'' @ [LF]))
   \<and> Invalid_selection \<notin> set (stdout (snd (delete_keys example_json ''20240101_100000''
            ((two_keys_world [] [''1,5'', ''yes'', ''n''])
               \<lparr>files := Map.empty(keys_file \<mapsto> File [])\<rparr>))))"
  by code_simp

subsection \<open>Metadata entries and their keys\<close>

lemma no_orphan_covered: "no_orphan_metadata w = covered (keys w) (aliases w)"
  by (simp add: no_orphan_metadata_def covered_def)

lemma no_orphan_same:
  "keys w' = keys w \<Longrightarrow> aliases w' = aliases w \<Longrightarrow>
     no_orphan_metadata w' = no_orphan_metadata w"
  by (simp add: no_orphan_metadata_def)

lemma set_del_at:
  assumes "i < length xs" and "x \<in> set xs" and "x \<noteq> xs ! i"
  shows "x \<in> set (del_at i xs)"
proof -
  have "drop i xs = xs ! i # drop (Suc i) xs"
    using assms(1) by (simp add: Cons_nth_drop_Suc)
  then have "take i xs @ xs ! i # drop (Suc i) xs = xs"
    using append_take_drop_id [of i xs] by simp
  then have "set xs = set (take i xs) \<union> insert (xs ! i) (set (drop (Suc i) xs))"
    using set_append [of "take i xs" "xs ! i # drop (Suc i) xs"] by simp
  with assms(2,3) show ?thesis by (auto simp: del_at_def)
qed

lemma covered_delete:
  assumes "covered ks al" and "i < length ks"
  shows "covered (del_at i ks) (AList.delete (get_key_name (ks ! i)) al)"
  unfolding covered_def
proof
  fix n
  assume n: "n \<in> fst ` set (AList.delete (get_key_name (ks ! i)) al)"
  have "fst ` set (AList.delete (get_key_name (ks ! i)) al) \<subseteq> fst ` set al"
    by (rule AList.dom_delete_subset)
  with n have "n \<in> fst ` set al" by (rule rev_subsetD)
  then have "n \<in> get_key_name ` set ks"
    using assms(1) unfolding covered_def by (rule rev_subsetD)
  then obtain k where k: "k \<in> set ks" "n = get_key_name k" by (rule imageE)
  have "get_key_name (ks ! i) \<notin> fst ` set (AList.delete (get_key_name (ks ! i)) al)"
    by (rule AList.delete_notin_dom)
  with n have "n \<noteq> get_key_name (ks ! i)" by blast
  with k have "k \<noteq> ks ! i" by blast
  with k(1) assms(2) have "k \<in> set (del_at i ks)" by (simp add: set_del_at)
  with k(2) show "n \<in> get_key_name ` set (del_at i ks)" by simp
qed

lemma covered_append:
  "covered ks al \<Longrightarrow> covered (ks @ [key]) (AList.update (get_key_name key) v al)"
  by (auto simp: covered_def AList.dom_update)

lemma covered_update:
  "covered ks al \<Longrightarrow> key \<in> set ks \<Longrightarrow> covered ks (AList.update (get_key_name key) v al)"
  by (auto simp: covered_def AList.dom_update)

lemma offer_sync_memory [simp]:
  "keys (snd (offer_sync m w)) = keys w" "aliases (snd (offer_sync m w)) = aliases w"
  "files (snd (offer_sync m w)) = files w"
  by (simp_all add: offer_sync_def split: list.splits)

subsection \<open>The invariant under delete\<close>

lemma delete_loop_covered:
  "covered ks al \<Longrightarrow>
     covered (fst (delete_loop idxs ks al deleted)) (fst (snd (delete_loop idxs ks al deleted)))"
proof (induction idxs arbitrary: ks al deleted)
  case Nil
  then show ?case by simp
next
  case (Cons idx rest)
  show ?case
  proof (cases "0 \<le> idx \<and> idx < int (length ks)")
    case True
    then have "nat idx < length ks" by auto
    then have "covered (del_at (nat idx) ks) (AList.delete (get_key_name (ks ! nat idx)) al)"
      using Cons.prems by (simp add: covered_delete)
    then show ?thesis
      using True Cons.IH by (simp add: Let_def)
  next
    case False
    then show ?thesis using Cons by auto
  qed
qed

lemma perform_deletion_no_orphan:
  "no_orphan_metadata w \<Longrightarrow> no_orphan_metadata (snd (perform_deletion J ts to_delete w))"
proof -
  assume inv: "no_orphan_metadata w"
  obtain ks al deleted where dl: "delete_loop to_delete (keys w) (aliases w) [] = (ks, al, deleted)"
    by (cases "delete_loop to_delete (keys w) (aliases w) []") auto
  have c: "covered ks al"
    using delete_loop_covered [of "keys w" "aliases w" to_delete "[]"] inv dl
    by (simp add: no_orphan_covered)
  let ?w1 = "w\<lparr>keys := ks, aliases := al\<rparr>"
  have 1: "no_orphan_metadata ?w1" using c by (simp add: no_orphan_covered)
  show ?thesis
  proof (cases "deleted = []")
    case True
    with dl 1 show ?thesis by (simp add: perform_deletion_def)
  next
    case False
    obtain e w2 where sv: "save_keys J ts ?w1 = (e, w2)" by (cases "save_keys J ts ?w1")
    then have m: "keys w2 = ks" "aliases w2 = al"
      using save_keys_memory(1,2) [of J ts ?w1] by simp_all
    show ?thesis
    proof (cases e)
      case (Some err)
      with dl False sv m c show ?thesis
        by (simp add: perform_deletion_def no_orphan_covered)
    next
      case None
      with dl False sv m c show ?thesis
        by (simp add: perform_deletion_def no_orphan_covered)
    qed
  qed
qed

lemma confirm_deletion_no_orphan:
  "no_orphan_metadata w \<Longrightarrow>
     no_orphan_metadata (snd (confirm_deletion J ts header listed to_delete w))"
proof -
  assume inv: "no_orphan_metadata w"
  obtain shown r where si: "show_items (aliases w) listed = (shown, r)"
    by (cases "show_items (aliases w) listed")
  show ?thesis
  proof (cases r)
    case (Some e)
    with si inv show ?thesis by (simp add: confirm_deletion_def no_orphan_metadata_def)
  next
    case None
    show ?thesis
    proof (cases "stdin w")
      case Nil
      with si None inv show ?thesis by (simp add: confirm_deletion_def no_orphan_metadata_def)
    next
      case (Cons confirm rest)
      let ?w2 = "(prints (header # shown) w)\<lparr>stdin := rest\<rparr>"
      have "no_orphan_metadata ?w2" using inv by (simp add: no_orphan_metadata_def)
      then have "no_orphan_metadata (snd (perform_deletion J ts to_delete ?w2))"
        by (rule perform_deletion_no_orphan)
      with si None Cons inv show ?thesis
        by (simp add: confirm_deletion_def no_orphan_metadata_def Let_def)
    qed
  qed
qed

lemma delete_keys_no_orphan:
  "no_orphan_metadata w \<Longrightarrow> no_orphan_metadata (snd (delete_keys J ts w))"
proof -
  assume inv: "no_orphan_metadata w"
  obtain shown r where sk: "show_keys (aliases w) 1 (keys w) = (shown, r)"
    by (cases "show_keys (aliases w) 1 (keys w)")
  show ?thesis
  proof (cases "keys w = []")
    case True
    with inv show ?thesis by (simp add: delete_keys_def no_orphan_metadata_def)
  next
    case False
    show ?thesis
    proof (cases r)
      case (Some e)
      with False sk inv show ?thesis by (simp add: delete_keys_def no_orphan_metadata_def)
    next
      case None
      show ?thesis
      proof (cases "stdin w")
        case Nil
        with False sk None inv show ?thesis
          by (simp add: delete_keys_def no_orphan_metadata_def)
      next
        case (Cons line rest)
        let ?w2 = "(prints (Available_keys_header # shown) w)\<lparr>stdin := rest\<rparr>"
        have 2: "no_orphan_metadata ?w2" using inv by (simp add: no_orphan_metadata_def)
        have k2: "keys ?w2 = keys w" by simp
        show ?thesis
        proof (cases "py_strip line = []")
          case True
          with False sk None Cons 2 show ?thesis by (simp add: delete_keys_def)
        next
          case nonempty: False
          show ?thesis
          proof (cases "py_lower (py_strip line) = ''all''")
            case True
            then have "delete_keys J ts w =
                confirm_deletion J ts About_to_delete_all (keys w)
                  (map int [0..<length (keys w)]) ?w2"
              using False sk None Cons nonempty by (simp add: delete_keys_def)
            then show ?thesis using confirm_deletion_no_orphan [OF 2] by simp
          next
            case notall: False
            show ?thesis
            proof (cases "parse_indices (py_strip line)")
              case None2: None
              then have "delete_keys J ts w = (None, print Invalid_selection ?w2)"
                using False sk None Cons nonempty notall by (simp add: delete_keys_def)
              then show ?thesis using inv by (simp add: no_orphan_metadata_def)
            next
              case (Some parsed)
              then have "delete_keys J ts w =
                  confirm_deletion J ts About_to_delete_these
                    (map (\<lambda>idx. keys w ! nat idx)
                       (filter (\<lambda>idx. 0 \<le> idx \<and> idx < int (length (keys w)))
                          (rev (sort parsed))))
                    (rev (sort parsed)) ?w2"
                using False sk None Cons nonempty notall by (simp add: delete_keys_def Let_def)
              then show ?thesis using confirm_deletion_no_orphan [OF 2] by simp
            qed
          qed
        qed
      qed
    qed
  qed
qed

subsection \<open>The invariant under capture\<close>

lemma add_key_no_orphan:
  assumes "no_orphan_metadata w"
  shows "no_orphan_metadata (fst (snd (add_key now key w)))"
proof (cases "stdin w")
  case Nil
  with assms show ?thesis by (simp add: add_key_def)
next
  case (Cons line1 rest1)
  show ?thesis
  proof (cases rest1)
    case Nil
    with Cons assms show ?thesis by (simp add: add_key_def no_orphan_metadata_def)
  next
    case (Cons line2 rest2)
    have "\<And>v. covered (keys w @ [key]) (AList.update (get_key_name key) v (aliases w))"
      using assms by (simp add: no_orphan_covered covered_append)
    with \<open>stdin w = line1 # rest1\<close> Cons show ?thesis
      by (simp add: add_key_def Let_def no_orphan_covered)
  qed
qed

lemma find_first_less: "find_first P xs = Some i \<Longrightarrow> i < length xs"
  by (induction xs arbitrary: i) (auto split: if_splits)

lemma capture_one_no_orphan:
  assumes "no_orphan_metadata w"
  shows "no_orphan_metadata (fst (snd (capture_one now key w)))"
proof (cases "find_existing_key key (keys w)")
  case None
  then show ?thesis using add_key_no_orphan [OF assms] by (simp add: capture_one_def)
next
  case (Some i)
  then have i: "i < length (keys w)"
    by (auto simp: find_existing_key_def dest: find_first_less split: option.splits)
  let ?w1 = "print (Key_already_exists (get_key_name key) (get_key_name (keys w ! i))) w"
  show ?thesis
  proof (cases "stdin w")
    case Nil
    with Some assms show ?thesis by (simp add: capture_one_def no_orphan_metadata_def)
  next
    case (Cons answer rest)
    show ?thesis
    proof (cases "py_lower answer = ''y''")
      case False
      with Some Cons assms show ?thesis
        by (simp add: capture_one_def no_orphan_metadata_def)
    next
      case True
      let ?w2 = "?w1\<lparr>stdin := rest,
                     aliases := AList.delete (get_key_name (keys w ! i)) (aliases w),
                     keys := del_at i (keys w)\<rparr>"
      have "no_orphan_metadata ?w2"
        using assms i by (simp add: no_orphan_covered covered_delete)
      then have "no_orphan_metadata (fst (snd (add_key now key ?w2)))"
        by (rule add_key_no_orphan)
      with Some Cons True show ?thesis by (simp add: capture_one_def Let_def)
    qed
  qed
qed

lemma capture_loop_no_orphan:
  "no_orphan_metadata w \<Longrightarrow>
     no_orphan_metadata (fst (snd (capture_loop now system_keys idxs w added)))"
proof (induction idxs arbitrary: w added)
  case Nil
  then show ?case by simp
next
  case (Cons idx rest)
  show ?case
  proof (cases "0 \<le> idx \<and> idx < int (length system_keys)")
    case False
    then show ?thesis using Cons by auto
  next
    case True
    obtain e w' names where co: "capture_one now (system_keys ! nat idx) w = (e, w', names)"
      by (cases "capture_one now (system_keys ! nat idx) w") auto
    have w': "no_orphan_metadata w'"
      using capture_one_no_orphan [OF Cons.prems, of now "system_keys ! nat idx"] co by simp
    show ?thesis
    proof (cases e)
      case None
      with True co show ?thesis using Cons.IH [OF w'] by simp
    next
      case (Some err)
      with True co w' show ?thesis by simp
    qed
  qed
qed

lemma save_keys_no_orphan:
  "no_orphan_metadata w \<Longrightarrow> no_orphan_metadata (snd (save_keys J ts w))"
  by (simp add: no_orphan_metadata_def)

lemma capture_keys_no_orphan:
  assumes "no_orphan_metadata w"
  shows "no_orphan_metadata (snd (capture_keys J now ts system_keys w))"
proof (cases "system_keys = []")
  case True
  with assms show ?thesis by (simp add: capture_keys_def no_orphan_metadata_def)
next
  case False
  let ?w1 = "prints (Found_keys_header #
               map (\<lambda>(i, key). Numbered i (get_key_name key)) (List.enumerate 1 system_keys)) w"
  show ?thesis
  proof (cases "stdin w")
    case Nil
    with False assms show ?thesis by (simp add: capture_keys_def no_orphan_metadata_def)
  next
    case (Cons line rest)
    let ?w2 = "?w1\<lparr>stdin := rest\<rparr>"
    have 2: "no_orphan_metadata ?w2" using assms by (simp add: no_orphan_metadata_def)
    show ?thesis
    proof (cases "py_strip line = []")
      case True
      with False Cons 2 show ?thesis by (simp add: capture_keys_def)
    next
      case nonempty: False
      let ?parsed = "if py_lower (py_strip line) = ''all''
                     then Some (map int [0..<length system_keys])
                     else parse_indices (py_strip line)"
      show ?thesis
      proof (cases ?parsed)
        case None
        with False Cons nonempty have
          "capture_keys J now ts system_keys w = (None, print Invalid_selection ?w2)"
          by (simp add: capture_keys_def Let_def)
        with assms show ?thesis by (simp add: no_orphan_metadata_def)
      next
        case (Some indices)
        obtain e w3 added where cl: "capture_loop now system_keys indices ?w2 [] = (e, w3, added)"
          by (cases "capture_loop now system_keys indices ?w2 []") auto
        have 3: "no_orphan_metadata w3"
          using capture_loop_no_orphan [OF 2, of now system_keys indices "[]"] cl by simp
        have run: "capture_keys J now ts system_keys w =
            (case e of Some err \<Rightarrow> (Some err, w3)
             | None \<Rightarrow>
                 if added = [] then (None, w3)
                 else (case save_keys J ts w3 of
                         (Some err, w4) \<Rightarrow> (Some err, w4)
                       | (None, w4) \<Rightarrow> offer_sync (''Added keys: '' @ join '', '' added) w4))"
          using False Cons nonempty Some cl by (cases e) (simp_all add: capture_keys_def Let_def)
        obtain e4 w4 where sv: "save_keys J ts w3 = (e4, w4)" by (cases "save_keys J ts w3")
        have 4: "no_orphan_metadata w4"
          using save_keys_no_orphan [OF 3, of J ts] sv by simp
        have 5: "no_orphan_metadata (snd (offer_sync (''Added keys: '' @ join '', '' added) w4))"
          using 4 by (simp add: no_orphan_metadata_def)
        show ?thesis
          using run 3 4 5 sv by (auto split: option.splits)
      qed
    qed
  qed
qed

subsection \<open>The invariant under alias and expiry\<close>

lemma set_alias_no_orphan:
  assumes "no_orphan_metadata w"
  shows "no_orphan_metadata (snd (set_alias w))"
proof (cases "keys w = []")
  case True
  with assms show ?thesis by (simp add: set_alias_def no_orphan_metadata_def)
next
  case False
  have upd: "\<And>n v. 0 \<le> n \<Longrightarrow> n < int (length (keys w)) \<Longrightarrow>
      covered (keys w) (AList.update (get_key_name (keys w ! nat n)) v (aliases w))"
    using assms by (simp add: covered_update no_orphan_covered)
  show ?thesis
    using False assms upd
    by (auto simp: set_alias_def Let_def no_orphan_covered split: list.splits option.splits)
qed

lemma set_expiry_no_orphan:
  assumes "no_orphan_metadata w"
  shows "no_orphan_metadata (snd (set_expiry J key_idx date_str w))"
proof (cases "0 \<le> key_idx \<and> key_idx < int (length (keys w))")
  case False
  with assms show ?thesis by (auto simp: set_expiry_def no_orphan_metadata_def)
next
  case True
  let ?name = "get_key_name (keys w ! nat key_idx)"
  have "nat key_idx < length (keys w)" using True by linarith
  then have mem: "keys w ! nat key_idx \<in> set (keys w)" by (rule nth_mem)
  have c: "covered (keys w) (aliases w)" using assms by (simp add: no_orphan_covered)
  let ?w1 = "if map_of (aliases w) ?name = None
             then w\<lparr>aliases := AList.update ?name (Dict []) (aliases w)\<rparr> else w"
  have k1: "keys ?w1 = keys w" by simp
  have c1: "covered (keys w) (aliases ?w1)"
    using c mem by (simp add: covered_update)
  have c2: "\<And>v. covered (keys w) (AList.update ?name v (aliases ?w1))"
    using c1 mem by (rule covered_update)
  have "set_expiry J key_idx date_str w =
          (case map_of (aliases ?w1) ?name of
             Some (Dict d) \<Rightarrow>
               (case save_aliases J
                       (?w1\<lparr>aliases :=
                          AList.update ?name (Dict (AList.update ''expiry'' date_str d)) (aliases ?w1)\<rparr>) of
                  (Some e, w2) \<Rightarrow> (Some e, w2)
                | (None, w2) \<Rightarrow> (None, print (Expiry_set date_str ?name) w2))
           | _ \<Rightarrow> (Some TypeError, ?w1))"
    using True by (simp add: set_expiry_def Let_def)
  then show ?thesis
    using c1 c2 k1
    by (auto simp: no_orphan_covered save_aliases_def
        split: option.splits metadata.splits prod.splits node.splits if_splits)
qed

subsection \<open>The invariant under every operation\<close>

lemma delete_loop_removed:
  "\<forall>n\<in>set deleted. n \<notin> fst ` set al \<Longrightarrow>
     \<forall>n\<in>set (snd (snd (delete_loop idxs ks al deleted))).
        n \<notin> fst ` set (fst (snd (delete_loop idxs ks al deleted)))"
proof (induction idxs arbitrary: ks al deleted)
  case Nil
  then show ?case by simp
next
  case (Cons idx rest)
  show ?case
  proof (cases "0 \<le> idx \<and> idx < int (length ks)")
    case False
    then show ?thesis using Cons by auto
  next
    case True
    let ?name = "get_key_name (ks ! nat idx)"
    have "\<forall>n\<in>set (deleted @ [?name]). n \<notin> fst ` set (AList.delete ?name al)"
    proof
      fix n
      assume "n \<in> set (deleted @ [?name])"
      then have "n \<in> set deleted \<or> n = ?name" by auto
      then show "n \<notin> fst ` set (AList.delete ?name al)"
      proof
        assume "n \<in> set deleted"
        with Cons.prems have "n \<notin> fst ` set al" by blast
        with AList.dom_delete_subset [of ?name al] show ?thesis by blast
      next
        assume "n = ?name"
        with AList.delete_notin_dom [of ?name al] show ?thesis by simp
      qed
    qed
    then show ?thesis
      using True Cons.IH [of "deleted @ [?name]" "AList.delete ?name al"] by (simp add: Let_def)
  qed
qed

text \<open>
  C9. The claim: every operation, load included, keeps the invariant that a metadata
  entry has a key record. Load reads the key list and the sidecar independently and
  removes nothing, so a sidecar that names a key the key list lacks gives an orphan
  entry that stays. What holds: capture, delete, set-alias, set-expiry and
  deploy keep the invariant, also when they leave with an exception, and after the
  deletion loop no deleted display name has a metadata entry.
\<close>

theorem metadata_entries_keep_their_key:
  assumes "no_orphan_metadata w"
  shows "no_orphan_metadata (snd (capture_keys J now ts system_keys w))
         \<and> no_orphan_metadata (snd (delete_keys J ts w))
         \<and> no_orphan_metadata (snd (set_alias w))
         \<and> no_orphan_metadata (snd (set_expiry J key_idx date_str w))
         \<and> no_orphan_metadata (snd (deploy_keys home os w))
         \<and> (\<forall>n\<in>set (snd (snd (delete_loop idxs (keys w) (aliases w) []))).
               n \<notin> fst ` set (fst (snd (delete_loop idxs (keys w) (aliases w) []))))"
proof -
  have "no_orphan_metadata (snd (deploy_keys home os w))"
    using assms by (simp add: no_orphan_metadata_def deploy_keys_keys deploy_keys_aliases)
  moreover have "\<forall>n\<in>set (snd (snd (delete_loop idxs (keys w) (aliases w) []))).
               n \<notin> fst ` set (fst (snd (delete_loop idxs (keys w) (aliases w) [])))"
    by (rule delete_loop_removed) simp
  ultimately show ?thesis
    using assms
    by (simp add: capture_keys_no_orphan delete_keys_no_orphan set_alias_no_orphan
        set_expiry_no_orphan)
qed

theorem metadata_entries_keep_their_key_witness:
  "no_orphan_metadata deploy_example
   \<and> no_orphan_metadata
       (snd (delete_keys example_json ''20240101_100000'' (deploy_example\<lparr>stdin := [''1'', ''yes'', ''n'']\<rparr>)))
   \<and> keys (snd (delete_keys example_json ''20240101_100000'' (deploy_example\<lparr>stdin := [''1'', ''yes'', ''n'']\<rparr>))) = []
   \<and> aliases (snd (delete_keys example_json ''20240101_100000'' (deploy_example\<lparr>stdin := [''1'', ''yes'', ''n'']\<rparr>))) = []
   \<and> no_orphan_metadata
       (snd (capture_keys example_json ''2024-02-02 12:00:00'' ''20240202_120000''
               [''ssh-ed25519 AAAAC3 alice@newlaptop'']
               (deploy_example\<lparr>stdin := [''1'', ''y'', ''work'', '''', ''n'']\<rparr>)))
   \<and> aliases
       (snd (capture_keys example_json ''2024-02-02 12:00:00'' ''20240202_120000''
               [''ssh-ed25519 AAAAC3 alice@newlaptop'']
               (deploy_example\<lparr>stdin := [''1'', ''y'', ''work'', '''', ''n'']\<rparr>)))
       = [(''alice@newlaptop'', Dict [(''added'', ''2024-02-02 12:00:00''), (''alias'', ''work'')])]"
proof -
  have 1: "no_orphan_metadata (deploy_example\<lparr>stdin := [''1'', ''yes'', ''n'']\<rparr>)" by code_simp
  have 2: "no_orphan_metadata (deploy_example\<lparr>stdin := [''1'', ''y'', ''work'', '''', ''n'']\<rparr>)"
    by code_simp
  have 3: "no_orphan_metadata deploy_example" by code_simp
  have 4: "keys (snd (delete_keys example_json ''20240101_100000'' (deploy_example\<lparr>stdin := [''1'', ''yes'', ''n'']\<rparr>))) = []"
    by code_simp
  have 5: "aliases (snd (delete_keys example_json ''20240101_100000'' (deploy_example\<lparr>stdin := [''1'', ''yes'', ''n'']\<rparr>))) = []"
    by code_simp
  have 6: "aliases
       (snd (capture_keys example_json ''2024-02-02 12:00:00'' ''20240202_120000''
               [''ssh-ed25519 AAAAC3 alice@newlaptop'']
               (deploy_example\<lparr>stdin := [''1'', ''y'', ''work'', '''', ''n'']\<rparr>)))
       = [(''alice@newlaptop'', Dict [(''added'', ''2024-02-02 12:00:00''), (''alias'', ''work'')])]"
    by code_simp
  show ?thesis
    using metadata_entries_keep_their_key [OF 1, of example_json _ "''20240101_100000''"]
      metadata_entries_keep_their_key [OF 2, of example_json "''2024-02-02 12:00:00''"
        "''20240202_120000''" "[''ssh-ed25519 AAAAC3 alice@newlaptop'']"]
      3 4 5 6
    by blast
qed

theorem load_keeps_orphan_metadata_counterexample:
  "no_orphan_metadata
     \<lparr>keys = [], aliases = [], files = Map.empty(aliases_file \<mapsto> File example_sidecar),
      stdin = [], stdout = []\<rparr>
   \<and> fst (load_aliases example_json
        \<lparr>keys = [], aliases = [], files = Map.empty(aliases_file \<mapsto> File example_sidecar),
         stdin = [], stdout = []\<rparr>) = None
   \<and> \<not> no_orphan_metadata (snd (load_aliases example_json
        \<lparr>keys = [], aliases = [], files = Map.empty(aliases_file \<mapsto> File example_sidecar),
         stdin = [], stdout = []\<rparr>))
   \<and> fst (new_manager example_json (Map.empty(aliases_file \<mapsto> File example_sidecar)) []) = None
   \<and> keys (snd (new_manager example_json (Map.empty(aliases_file \<mapsto> File example_sidecar)) [])) = []
   \<and> aliases (snd (new_manager example_json (Map.empty(aliases_file \<mapsto> File example_sidecar)) []))
       = [(''alice@laptop'', Dict [(''added'', ''2024-01-01 10:00:00'')])]
   \<and> \<not> no_orphan_metadata
         (snd (new_manager example_json (Map.empty(aliases_file \<mapsto> File example_sidecar)) []))"
  by code_simp

subsection \<open>More on display names, deleting and the backup\<close>

text \<open>With more than two fields the display name is the last field.\<close>

lemma get_key_name_many_fields:
  "2 < length (py_split (py_strip key)) \<Longrightarrow> get_key_name key = last (py_split (py_strip key))"
  by (simp add: get_key_name_def)

text \<open>One index in range: exactly that entry goes, the others keep their order.\<close>

lemma delete_loop_single:
  assumes "i < length ks"
  shows "delete_loop [int i] ks al [] =
           (take i ks @ drop (Suc i) ks, AList.delete (get_key_name (ks ! i)) al,
            [get_key_name (ks ! i)])"
  using assms by (simp add: del_at_def Let_def)

lemma nths_cong_length:
  "(\<And>j. j < length xs \<Longrightarrow> (j \<in> A) = (j \<in> B)) \<Longrightarrow> nths xs A = nths xs B"
proof -
  assume a: "\<And>j. j < length xs \<Longrightarrow> (j \<in> A) = (j \<in> B)"
  have "filter (\<lambda>p. snd p \<in> A) (zip xs [0..<length xs])
        = filter (\<lambda>p. snd p \<in> B) (zip xs [0..<length xs])"
    by (rule filter_cong) (auto dest!: set_zip_rightD simp: a)
  then show ?thesis by (simp add: nths_def)
qed

lemma nths_del_at:
  assumes "i < length ks" and "\<And>j. i \<le> j \<Longrightarrow> j \<in> A"
  shows "nths (del_at i ks) A = nths ks (A - {i})"
proof -
  let ?l = "take i ks" and ?r = "drop (Suc i) ks"
  have ks: "ks = ?l @ ks ! i # ?r"
    using assms(1) by (simp add: id_take_nth_drop)
  have len: "length ?l = i" using assms(1) by simp
  have all: "{j. j + i \<in> A} = UNIV" using assms(2) by auto
  have univ: "nths ?r UNIV = ?r" by (rule nths_all) simp
  have left: "nths ?l (A - {i}) = nths ?l A"
    by (rule nths_cong_length) (simp add: len)
  have "nths (?l @ ?r) A = nths ?l A @ nths ?r {j. j + length ?l \<in> A}"
    by (rule nths_append)
  then have 1: "nths (del_at i ks) A = nths ?l A @ ?r"
    by (simp only: del_at_def len all univ)
  have shifted: "{j. j + i \<in> A - {i}} = {j. j \<noteq> 0}" using assms(2) by auto
  have tail: "{j. Suc j \<in> {j. j \<noteq> 0}} = UNIV" by auto
  have "nths (ks ! i # ?r) {j. j \<noteq> 0} = ?r"
    by (simp add: nths_Cons tail univ)
  moreover have "nths (?l @ ks ! i # ?r) (A - {i})
      = nths ?l (A - {i}) @ nths (ks ! i # ?r) {j. j + length ?l \<in> A - {i}}"
    by (rule nths_append)
  ultimately have "nths (?l @ ks ! i # ?r) (A - {i}) = nths ?l A @ ?r"
    by (simp only: len shifted left)
  with ks 1 show ?thesis by simp
qed

text \<open>
  Indices in strictly descending order, as \<^verbatim>\<open>sorted(..., reverse=True)\<close> gives them when no
  index is typed twice: the entries that stay are those whose position was not typed.
\<close>

lemma delete_loop_descending:
  "sorted_wrt (>) idxs \<Longrightarrow>
     fst (delete_loop idxs ks al deleted) = nths ks {j. int j \<notin> set idxs}"
proof (induction idxs arbitrary: ks al deleted)
  case Nil
  then show ?case by (simp add: nths_all)
next
  case (Cons idx rest)
  then have lower: "\<And>r. r \<in> set rest \<Longrightarrow> r < idx" and desc: "sorted_wrt (>) rest"
    by auto
  show ?case
  proof (cases "0 \<le> idx \<and> idx < int (length ks)")
    case True
    let ?i = "nat idx"
    have i: "?i < length ks" using True by linarith
    have above: "\<And>j. ?i \<le> j \<Longrightarrow> j \<in> {j. int j \<notin> set rest}"
    proof
      fix j assume "?i \<le> j"
      then have "idx \<le> int j" using True by linarith
      then show "int j \<notin> set rest" using lower by fastforce
    qed
    have "fst (delete_loop (idx # rest) ks al deleted)
          = nths (del_at ?i ks) {j. int j \<notin> set rest}"
      using True Cons.IH [OF desc] by (simp add: Let_def)
    also have "\<dots> = nths ks ({j. int j \<notin> set rest} - {?i})"
      using i above by (rule nths_del_at)
    also have "{j. int j \<notin> set rest} - {?i} = {j. int j \<notin> set (idx # rest)}"
      using True by auto
    finally show ?thesis .
  next
    case False
    have "fst (delete_loop (idx # rest) ks al deleted) = nths ks {j. int j \<notin> set rest}"
      using False Cons.IH [OF desc] by auto
    also have "\<dots> = nths ks {j. int j \<notin> set (idx # rest)}"
      using False by (intro nths_cong_length) auto
    finally show ?thesis .
  qed
qed

lemma descending_typed_indices:
  "distinct parsed \<Longrightarrow> sorted_wrt (>) (rev (sort parsed))"
proof -
  assume "distinct parsed"
  then have "sorted_wrt (<) (sort parsed)"
    by (simp add: strict_sorted_iff)
  then show ?thesis by (simp add: sorted_wrt_rev)
qed

lemma delete_typed_indices:
  "distinct parsed \<Longrightarrow>
     fst (delete_loop (rev (sort parsed)) ks al []) = nths ks {j. int j \<notin> set parsed}"
  using delete_loop_descending [OF descending_typed_indices, of parsed ks al "[]"] by simp

lemma backup_file_eq:
  "path_join backup_dir (''authorized_keys_'' @ ts) = ''.key_backups/authorized_keys_'' @ ts"
  by (simp add: path_join_def backup_dir_def)

lemma dirname_backup_file:
  assumes "CHR ''/'' \<notin> set ts"
  shows "dirname (path_join backup_dir (''authorized_keys_'' @ ts)) = backup_dir"
proof -
  let ?P = "\<lambda>c. c \<noteq> CHR ''/''"
  have skip: "dropWhile ?P (rev ts @ rest) = dropWhile ?P rest" for rest
    using assms by (intro dropWhile_append2) auto
  have "rev (''.key_backups/authorized_keys_'' @ ts)
          = rev ts @ rev ''.key_backups/authorized_keys_''"
    by (rule rev_append)
  then have "dropWhile ?P (rev (''.key_backups/authorized_keys_'' @ ts))
          = dropWhile ?P (rev ''.key_backups/authorized_keys_'')"
    by (simp only: skip)
  also have "\<dots> = CHR ''/'' # rev ''.key_backups''"
    by simp
  finally show ?thesis
    unfolding backup_file_eq dirname_def by (simp add: backup_dir_def Let_def)
qed

lemma backup_file_neq [simp]:
  "path_join backup_dir (''authorized_keys_'' @ ts) \<noteq> keys_file"
  "path_join backup_dir (''authorized_keys_'' @ ts) \<noteq> aliases_file"
  "path_join backup_dir (''authorized_keys_'' @ ts) \<noteq> backup_dir"
  unfolding backup_file_eq
  by (simp_all add: keys_file_def aliases_file_def backup_dir_def)

text \<open>
  With a key-list file on disk, a backup directory that is absent or a directory, and a
  clock reading without a slash, \<^verbatim>\<open>save_keys\<close> copies the old file to the backup before it
  writes the new one.
\<close>

lemma save_keys_backs_up:
  assumes "files w keys_file = Some (File c)"
    and "files w backup_dir = None \<or> files w backup_dir = Some Dir"
    and "CHR ''/'' \<notin> set ts"
    and "files w (path_join backup_dir (''authorized_keys_'' @ ts)) \<noteq> Some Dir"
    and "files w aliases_file \<noteq> Some Dir"
  shows "fst (save_keys J ts w) = None
         \<and> files (snd (save_keys J ts w)) (path_join backup_dir (''authorized_keys_'' @ ts))
             = Some (File c)
         \<and> files (snd (save_keys J ts w)) keys_file = Some (File (join [LF] (keys w) @ [LF]))
         \<and> files (snd (save_keys J ts w)) aliases_file = Some (File (json_dump J (aliases w)))"
proof -
  define bf where "bf = path_join backup_dir (''authorized_keys_'' @ ts)"
  have d: "dirname bf = backup_dir"
    unfolding bf_def using assms(3) by (rule dirname_backup_file)
  have n: "bf \<noteq> keys_file" "bf \<noteq> aliases_file" "bf \<noteq> backup_dir"
    unfolding bf_def by (rule backup_file_neq)+
  have nd: "files w bf \<noteq> Some Dir"
    unfolding bf_def by (rule assms(4))
  have ne: "backup_dir \<noteq> []" by (simp add: backup_dir_def)
  let ?fs1 = "(files w)(backup_dir \<mapsto> Dir)"
  have w1: "(if files w backup_dir = None then w\<lparr>files := ?fs1\<rparr> else w) = w\<lparr>files := ?fs1\<rparr>"
    using assms(2) by (auto simp: fun_upd_idem)
  have "copy2 keys_file bf ?fs1 = Inr (?fs1(bf \<mapsto> File c))"
    using assms(1) n nd ne by (simp add: copy2_def d Let_def)
  then have cb: "create_backup ts w =
      (None, print (Backup_created bf) (w\<lparr>files := ?fs1(bf \<mapsto> File c)\<rparr>))"
    unfolding create_backup_def bf_def [symmetric] by (simp add: w1 Let_def)
  have "fst (save_keys J ts w) = None
         \<and> files (snd (save_keys J ts w)) bf = Some (File c)
         \<and> files (snd (save_keys J ts w)) keys_file = Some (File (join [LF] (keys w) @ [LF]))
         \<and> files (snd (save_keys J ts w)) aliases_file = Some (File (json_dump J (aliases w)))"
    using assms(1,5) n
    by (simp add: save_keys_def cb save_aliases_def split: option.splits node.splits)
  then show ?thesis unfolding bf_def .
qed

end
